theory Spec2Isabelle
  imports Main
begin

section \<open>Values of the program\<close>

text \<open>
  The package \<open>logx\<close> (files \<open>logx.go\<close> and \<open>options.go\<close>) is embedded function by
  function. A Go panic is a value of type \<open>error\<close>; a function that can panic returns
  \<open>error + 'a\<close>, with \<open>Inl\<close> for the panic.
\<close>

datatype error =
    NilPointer        \<comment> \<open>nil pointer dereference, or a call of a nil function value\<close>
  | NilMapAssign      \<comment> \<open>assignment to entry in nil map\<close>
  | NilWriter         \<comment> \<open>the backend writes to a nil \<open>io.Writer\<close>\<close>
  | Panicked string   \<comment> \<open>a panic raised by caller-supplied code\<close>

text \<open>
  An \<open>io.Writer\<close> is known by its identity only: the process's standard output, or some
  other sink. The nil interface value is \<open>None\<close> of \<open>writer option\<close>.
\<close>

datatype writer = Stdout | Sink nat

text \<open>\<open>slog.Level\<close> is an integer; the four named levels are the constants of \<open>log/slog\<close>.\<close>

type_synonym Level = int

definition LevelDebug :: Level where "LevelDebug = - 4"
definition LevelInfo :: Level where "LevelInfo = 0"
definition LevelWarn :: Level where "LevelWarn = 4"
definition LevelError :: Level where "LevelError = 8"

text \<open>
  The variadic \<open>args ...any\<close> of an emission call: an \<open>slog.Attr\<close> with a string value, as
  \<open>slog.String key v\<close> builds it, or any other value the caller passes.
\<close>

datatype 'v any = Attr string string | Val 'v

definition slog_String :: "string \<Rightarrow> string \<Rightarrow> 'v any" where
  "slog_String key v = Attr key v"

text \<open>
  \<open>type ContextExtractor func(ctx context.Context) string\<close>. The context is a type
  parameter. A Go function value may panic when called, and may be nil (calling it panics):
  both are the result \<open>Inl\<close>.
\<close>

type_synonym 'c ContextExtractor = "'c \<Rightarrow> error + string"

text \<open>
  A Go map is a reference: \<open>Options\<close> and \<open>Logx\<close> hold the address of the extractor map,
  and the maps themselves live in a store, a list indexed by address. \<open>make\<close> appends a
  new map to the store. The nil map is the address \<open>None\<close>.
\<close>

type_synonym 'c map_store = "(string \<rightharpoonup> 'c ContextExtractor) list"

definition make_map :: "'c map_store \<Rightarrow> nat \<times> 'c map_store" where
  "make_map ms = (length ms, ms @ [Map.empty])"

text \<open>
  Reading a map through its address; reading the nil map finds no entry. (An address
  outside the store does not occur in Go; the model reads the empty map there.)
\<close>

definition map_at :: "'c map_store \<Rightarrow> nat option \<Rightarrow> (string \<rightharpoonup> 'c ContextExtractor)" where
  "map_at ms r = (case r of None \<Rightarrow> Map.empty
                  | Some a \<Rightarrow> if a < length ms then ms ! a else Map.empty)"

section \<open>options.go\<close>

record Options =
  level :: Level
  addSource :: bool
  outputW :: "writer option"  \<comment> \<open>the field \<open>output\<close>, which is a keyword of Isabelle\<close>
  contextExtractors :: "nat option"

text \<open>
  \<open>type OptionsFunc func(*Options)\<close>: the function updates the \<open>Options\<close> it is given and
  may write to the extractor map it points to, or panic.
\<close>

type_synonym 'c OptionsFunc = "Options \<Rightarrow> 'c map_store \<Rightarrow> error + (Options \<times> 'c map_store)"

definition defaultOptions :: "'c map_store \<Rightarrow> Options \<times> 'c map_store" where
  "defaultOptions ms =
     (let (r, ms') = make_map ms
      in (\<lparr>level = LevelInfo, addSource = True, outputW = Some Stdout,
           contextExtractors = Some r\<rparr>, ms'))"

definition WithLevel :: "Level \<Rightarrow> 'c OptionsFunc" where
  "WithLevel lv = (\<lambda>opts ms. Inr (opts\<lparr>level := lv\<rparr>, ms))"

definition WithAddSource :: "bool \<Rightarrow> 'c OptionsFunc" where
  "WithAddSource b = (\<lambda>opts ms. Inr (opts\<lparr>addSource := b\<rparr>, ms))"

definition WithOutput :: "writer option \<Rightarrow> 'c OptionsFunc" where
  "WithOutput w = (\<lambda>opts ms.
     if w = None then Inr (opts\<lparr>outputW := Some Stdout\<rparr>, ms)
     else Inr (opts\<lparr>outputW := w\<rparr>, ms))"

text \<open>
  \<open>o.contextExtractors[key] = extractor\<close>: a write through the map's address, which
  panics on the nil map. (An address outside the store does not occur in Go; the model
  leaves the store as it is there.)
\<close>

definition WithContextExtractor :: "string \<Rightarrow> 'c ContextExtractor \<Rightarrow> 'c OptionsFunc" where
  "WithContextExtractor key extractor = (\<lambda>opts ms.
     case contextExtractors opts of
       None \<Rightarrow> Inl NilMapAssign
     | Some r \<Rightarrow> Inr (opts, if r < length ms then ms[r := (ms ! r)(key \<mapsto> extractor)] else ms))"

text \<open>The loop \<open>for _, option := range options { option(opts) }\<close> of \<open>NewOptions\<close>.\<close>

fun apply_options :: "'c OptionsFunc list \<Rightarrow> 'c OptionsFunc" where
  "apply_options [] opts ms = Inr (opts, ms)"
| "apply_options (option # options) opts ms =
     (case option opts ms of
        Inl e \<Rightarrow> Inl e
      | Inr (opts', ms') \<Rightarrow> apply_options options opts' ms')"

definition NewOptions :: "'c OptionsFunc list \<Rightarrow> 'c map_store \<Rightarrow> error + (Options \<times> 'c map_store)" where
  "NewOptions options ms = (let (opts, ms') = defaultOptions ms in apply_options options opts ms')"

section \<open>The backend: \<open>log/slog\<close>\<close>

text \<open>
  \<open>log/slog\<close> is Go's standard library, not code of this package. What the package uses
  of it is modelled from its documentation: a \<open>*slog.Logger\<close> over a JSON handler is the
  writer, the two handler options and the attributes added by \<open>With\<close>; a call at level
  \<open>lv\<close> is dropped when \<open>lv\<close> is below the handler's level, and writes one record to the
  writer otherwise. The record is kept structured (the JSON text and the time stamp are
  the encoder's business).
\<close>

record slog_Logger =
  handler_w :: "writer option"
  handler_AddSource :: bool
  handler_Level :: Level
  attrs :: "(string \<times> string) list"

record 'v log_record =
  r_level :: Level
  r_source :: bool
  r_msg :: string
  r_attrs :: "(string \<times> string) list"
  r_args :: "'v any list"

type_synonym 'v sinks = "writer \<Rightarrow> 'v log_record list"

text \<open>\<open>slog.New(slog.NewJSONHandler(w, &slog.HandlerOptions{AddSource: a, Level: lv}))\<close>\<close>

definition slog_New_JSONHandler :: "writer option \<Rightarrow> bool \<Rightarrow> Level \<Rightarrow> slog_Logger" where
  "slog_New_JSONHandler w a lv =
     \<lparr>handler_w = w, handler_AddSource = a, handler_Level = lv, attrs = []\<rparr>"

text \<open>\<open>l.With(slog.String(key, v))\<close>\<close>

definition slog_With :: "slog_Logger \<Rightarrow> string \<Rightarrow> string \<Rightarrow> slog_Logger" where
  "slog_With l key v = l\<lparr>attrs := attrs l @ [(key, v)]\<rparr>"

definition slog_record :: "slog_Logger \<Rightarrow> Level \<Rightarrow> string \<Rightarrow> 'v any list \<Rightarrow> 'v log_record" where
  "slog_record l lv msg args =
     \<lparr>r_level = lv, r_source = handler_AddSource l, r_msg = msg, r_attrs = attrs l,
      r_args = args\<rparr>"

definition slog_log :: "slog_Logger \<Rightarrow> Level \<Rightarrow> string \<Rightarrow> 'v any list \<Rightarrow> 'v sinks \<Rightarrow> error + 'v sinks" where
  "slog_log l lv msg args out =
     (if lv < handler_Level l then Inr out
      else case handler_w l of
             None \<Rightarrow> Inl NilWriter
           | Some w \<Rightarrow> Inr (out(w := out w @ [slog_record l lv msg args])))"

definition slog_InfoContext :: "slog_Logger \<Rightarrow> 'c \<Rightarrow> string \<Rightarrow> 'v any list \<Rightarrow> 'v sinks \<Rightarrow> error + 'v sinks" where
  "slog_InfoContext l ctx msg args out = slog_log l LevelInfo msg args out"

definition slog_DebugContext :: "slog_Logger \<Rightarrow> 'c \<Rightarrow> string \<Rightarrow> 'v any list \<Rightarrow> 'v sinks \<Rightarrow> error + 'v sinks" where
  "slog_DebugContext l ctx msg args out = slog_log l LevelDebug msg args out"

definition slog_ErrorContext :: "slog_Logger \<Rightarrow> 'c \<Rightarrow> string \<Rightarrow> 'v any list \<Rightarrow> 'v sinks \<Rightarrow> error + 'v sinks" where
  "slog_ErrorContext l ctx msg args out = slog_log l LevelError msg args out"

definition slog_WarnContext :: "slog_Logger \<Rightarrow> 'c \<Rightarrow> string \<Rightarrow> 'v any list \<Rightarrow> 'v sinks \<Rightarrow> error + 'v sinks" where
  "slog_WarnContext l ctx msg args out = slog_log l LevelWarn msg args out"

section \<open>logx.go\<close>

text \<open>
  \<open>type Logx struct { *slog.Logger; moduleName string; contextExtractors map[...] }\<close>.
  The embedded pointer may be nil (\<open>None\<close>), as it is between the allocation in \<open>newLogx\<close>
  and \<open>configLogger\<close>. The extractor map is an address into the store of maps.
\<close>

record Logx =
  Logger :: "slog_Logger option"
  moduleName :: string
  lx_contextExtractors :: "nat option"  \<comment> \<open>the field \<open>contextExtractors\<close> of \<open>Logx\<close>\<close>

text \<open>
  The state of the process: the registry \<open>moduleLoggers\<close> (a \<open>sync.Map\<close> from module name
  to \<open>*Logx\<close>), the heap of \<open>Logx\<close> structs (a \<open>*Logx\<close> is an index into it, nil is \<open>None\<close>;
  allocation appends), the store of extractor maps, and what has been written to each
  writer.
\<close>

record ('c, 'v) world =
  moduleLoggers :: "string \<rightharpoonup> nat"
  heap :: "Logx list"
  maps :: "'c map_store"
  sinks :: "'v sinks"

definition init_world :: "('c, 'v) world" where
  "init_world = \<lparr>moduleLoggers = Map.empty, heap = [], maps = [], sinks = (\<lambda>_. [])\<rparr>"

definition defaultModuleName :: string where
  "defaultModuleName = ''default''"

definition getModuleName :: "string \<Rightarrow> string" where
  "getModuleName name = (if name = [] then defaultModuleName else name)"

definition configLogger :: "Logx \<Rightarrow> Options option \<Rightarrow> 'c map_store \<Rightarrow> Logx \<times> 'c map_store" where
  "configLogger logger options ms =
     (let (opts, ms') = (case options of None \<Rightarrow> defaultOptions ms | Some p \<Rightarrow> (p, ms));
          l = slog_New_JSONHandler (outputW opts) (addSource opts) (level opts);
          logger1 = logger\<lparr>Logger := Some l, lx_contextExtractors := contextExtractors opts\<rparr>
      in (logger1\<lparr>Logger := Some (slog_With l ''module'' (moduleName logger1))\<rparr>, ms'))"

text \<open>\<open>newLogx\<close> allocates the struct and returns its address.\<close>

definition newLogx :: "string \<Rightarrow> Options option \<Rightarrow> ('c, 'v) world \<Rightarrow> nat \<times> ('c, 'v) world" where
  "newLogx name options w =
     (let logger = \<lparr>Logger = None, moduleName = name, lx_contextExtractors = None\<rparr>;
          (logger', ms') = configLogger logger options (maps w)
      in (length (heap w), w\<lparr>heap := heap w @ [logger'], maps := ms'\<rparr>))"

definition Register :: "string \<Rightarrow> Options option \<Rightarrow> ('c, 'v) world \<Rightarrow> nat option \<times> ('c, 'v) world" where
  "Register name options w =
     (let name' = getModuleName name in
      case moduleLoggers w name' of
        Some logx \<Rightarrow> (Some logx, w)
      | None \<Rightarrow>
          (let (logx, w') = newLogx name' options w
           in (Some logx, w'\<lparr>moduleLoggers := (moduleLoggers w')(name' \<mapsto> logx)\<rparr>)))"

definition GetLogger :: "string \<Rightarrow> ('c, 'v) world \<Rightarrow> (nat option \<times> bool) \<times> ('c, 'v) world" where
  "GetLogger name w =
     (let name' = getModuleName name in
      case moduleLoggers w name' of
        Some logx \<Rightarrow> ((Some logx, True), w)
      | None \<Rightarrow> ((None, False), w))"

definition Default :: "('c, 'v) world \<Rightarrow> nat option \<times> ('c, 'v) world" where
  "Default w =
     (let ((logger, _), w') = GetLogger defaultModuleName w
      in if logger = None then Register [] None w' else (logger, w'))"

text \<open>
  \<open>for key, extractor := range ce\<close>: Go leaves the order of iteration over a map open.
  The order the runtime takes is the parameter \<open>order\<close>, a list of keys; it is an iteration
  order of \<open>ce\<close> when it names every key of \<open>ce\<close> once. (A key that is not in the map is
  passed over; no iteration order has one.)
\<close>

definition iteration_order :: "(string \<rightharpoonup> 'a) \<Rightarrow> string list \<Rightarrow> bool" where
  "iteration_order ce order = (distinct order \<and> set order = dom ce)"

fun setValueFromContext ::
  "'c \<Rightarrow> (string \<rightharpoonup> 'c ContextExtractor) \<Rightarrow> string list \<Rightarrow> 'v any list \<Rightarrow> error + 'v any list" where
  "setValueFromContext ctx ce [] args = Inr args"
| "setValueFromContext ctx ce (key # order) args =
     (case ce key of
        None \<Rightarrow> setValueFromContext ctx ce order args
      | Some extractor \<Rightarrow>
          (case extractor ctx of
             Inl e \<Rightarrow> Inl e
           | Inr v \<Rightarrow> setValueFromContext ctx ce order (args @ [slog_String key v])))"

text \<open>
  The body shared by the four emission methods: read the receiver \<open>c\<close> (nil panics), run
  the extractors, call the method \<open>backend\<close> of the embedded logger (a nil logger panics).
  (An address outside the heap does not occur in Go; the model treats it as nil.)
\<close>

definition emit ::
  "(slog_Logger \<Rightarrow> 'c \<Rightarrow> string \<Rightarrow> 'v any list \<Rightarrow> 'v sinks \<Rightarrow> error + 'v sinks) \<Rightarrow>
   nat option \<Rightarrow> 'c \<Rightarrow> string list \<Rightarrow> string \<Rightarrow> 'v any list \<Rightarrow> ('c, 'v) world \<Rightarrow> error + ('c, 'v) world" where
  "emit backend c ctx order msg args w =
     (case c of
        None \<Rightarrow> Inl NilPointer
      | Some a \<Rightarrow>
          if length (heap w) \<le> a then Inl NilPointer
          else
            (let logx = heap w ! a in
             case setValueFromContext ctx (map_at (maps w) (lx_contextExtractors logx)) order args of
               Inl e \<Rightarrow> Inl e
             | Inr args' \<Rightarrow>
                 (case Logger logx of
                    None \<Rightarrow> Inl NilPointer
                  | Some l \<Rightarrow>
                      (case backend l ctx msg args' (sinks w) of
                         Inl e \<Rightarrow> Inl e
                       | Inr out \<Rightarrow> Inr (w\<lparr>sinks := out\<rparr>)))))"

definition InfoContext ::
  "nat option \<Rightarrow> 'c \<Rightarrow> string list \<Rightarrow> string \<Rightarrow> 'v any list \<Rightarrow> ('c, 'v) world \<Rightarrow> error + ('c, 'v) world" where
  "InfoContext c ctx order msg args w = emit slog_InfoContext c ctx order msg args w"

definition DebugContext ::
  "nat option \<Rightarrow> 'c \<Rightarrow> string list \<Rightarrow> string \<Rightarrow> 'v any list \<Rightarrow> ('c, 'v) world \<Rightarrow> error + ('c, 'v) world" where
  "DebugContext c ctx order msg args w = emit slog_DebugContext c ctx order msg args w"

definition ErrorContext ::
  "nat option \<Rightarrow> 'c \<Rightarrow> string list \<Rightarrow> string \<Rightarrow> 'v any list \<Rightarrow> ('c, 'v) world \<Rightarrow> error + ('c, 'v) world" where
  "ErrorContext c ctx order msg args w = emit slog_ErrorContext c ctx order msg args w"

definition WarnContext ::
  "nat option \<Rightarrow> 'c \<Rightarrow> string list \<Rightarrow> string \<Rightarrow> 'v any list \<Rightarrow> ('c, 'v) world \<Rightarrow> error + ('c, 'v) world" where
  "WarnContext c ctx order msg args w = emit slog_WarnContext c ctx order msg args w"

section \<open>Vocabulary of the theorems\<close>

text \<open>
  The four modifiers the package exports, as data, so that a theorem can speak of a list of
  them; \<open>modifier_fn\<close> is the \<open>OptionsFunc\<close> each one stands for. \<open>last_wins sets d ms\<close>
  is the value set by the last element of \<open>ms\<close> that sets one, and \<open>d\<close> when none does.
\<close>

datatype 'c modifier =
    SetLevel Level
  | SetAddSource bool
  | SetOutput "writer option"
  | SetExtractor string "'c ContextExtractor"

fun modifier_fn :: "'c modifier \<Rightarrow> 'c OptionsFunc" where
  "modifier_fn (SetLevel lv) = WithLevel lv"
| "modifier_fn (SetAddSource b) = WithAddSource b"
| "modifier_fn (SetOutput w) = WithOutput w"
| "modifier_fn (SetExtractor key extractor) = WithContextExtractor key extractor"

definition last_wins :: "('m \<Rightarrow> 'a option) \<Rightarrow> 'a \<Rightarrow> 'm list \<Rightarrow> 'a" where
  "last_wins sets d ms = (case List.map_filter sets ms of [] \<Rightarrow> d | xs \<Rightarrow> last xs)"

fun sets_level :: "'c modifier \<Rightarrow> Level option" where
  "sets_level (SetLevel lv) = Some lv"
| "sets_level _ = None"

fun sets_addSource :: "'c modifier \<Rightarrow> bool option" where
  "sets_addSource (SetAddSource b) = Some b"
| "sets_addSource _ = None"

fun sets_output :: "'c modifier \<Rightarrow> writer option option" where
  "sets_output (SetOutput w) = Some (if w = None then Some Stdout else w)"
| "sets_output _ = None"

text \<open>
  What the extractors that return contribute to the backend's arguments, in the order of
  iteration: one string-valued attribute per key, named after the key. \<open>returns_on\<close>
  says that every extractor met in that order returns on the context (none panics, none
  is nil).
\<close>

text \<open>The nil function value as an extractor: calling it panics.\<close>

definition nil_extractor :: "'c ContextExtractor" where
  "nil_extractor ctx = Inl NilPointer"

definition extracted :: "'c \<Rightarrow> (string \<rightharpoonup> 'c ContextExtractor) \<Rightarrow> string list \<Rightarrow> 'v any list" where
  "extracted ctx ce order =
     concat (map (\<lambda>key. case ce key of
                           None \<Rightarrow> []
                         | Some f \<Rightarrow> (case f ctx of Inl e \<Rightarrow> [] | Inr v \<Rightarrow> [Attr key v])) order)"

definition returns_on :: "'c \<Rightarrow> (string \<rightharpoonup> 'c ContextExtractor) \<Rightarrow> string list \<Rightarrow> bool" where
  "returns_on ctx ce order =
     list_all (\<lambda>key. case ce key of
                       None \<Rightarrow> True
                     | Some f \<Rightarrow> (case f ctx of Inl e \<Rightarrow> False | Inr v \<Rightarrow> True)) order"

text \<open>
  A run of the process is a list of calls of the package's functions, made one after the
  other from the state the process starts in. A call that panics leaves the state as it
  was. \<open>Call_OptionsFunc\<close> is a caller running an \<open>OptionsFunc\<close> on options it holds.
\<close>

datatype severity = Info | Debug | Warn | Error

fun emit_at ::
  "severity \<Rightarrow> nat option \<Rightarrow> 'c \<Rightarrow> string list \<Rightarrow> string \<Rightarrow> 'v any list \<Rightarrow>
   ('c, 'v) world \<Rightarrow> error + ('c, 'v) world" where
  "emit_at Info = InfoContext"
| "emit_at Debug = DebugContext"
| "emit_at Warn = WarnContext"
| "emit_at Error = ErrorContext"

definition level_of :: "severity \<Rightarrow> Level" where
  "level_of s = (case s of Info \<Rightarrow> LevelInfo | Debug \<Rightarrow> LevelDebug
                 | Warn \<Rightarrow> LevelWarn | Error \<Rightarrow> LevelError)"

datatype ('c, 'v) call =
    Call_Register string "Options option"
  | Call_GetLogger string
  | Call_Default
  | Call_Emit severity "nat option" 'c "string list" string "'v any list"
  | Call_NewOptions "'c OptionsFunc list"
  | Call_OptionsFunc "'c OptionsFunc" Options

fun exec :: "('c, 'v) call \<Rightarrow> ('c, 'v) world \<Rightarrow> ('c, 'v) world" where
  "exec (Call_Register name options) w = snd (Register name options w)"
| "exec (Call_GetLogger name) w = snd (GetLogger name w)"
| "exec Call_Default w = snd (Default w)"
| "exec (Call_Emit s c ctx order msg args) w =
     (case emit_at s c ctx order msg args w of Inl e \<Rightarrow> w | Inr w' \<Rightarrow> w')"
| "exec (Call_NewOptions fs) w =
     (case NewOptions fs (maps w) of Inl e \<Rightarrow> w | Inr (opts, ms') \<Rightarrow> w\<lparr>maps := ms'\<rparr>)"
| "exec (Call_OptionsFunc f opts) w =
     (case f opts (maps w) of Inl e \<Rightarrow> w | Inr (opts', ms') \<Rightarrow> w\<lparr>maps := ms'\<rparr>)"

fun run :: "('c, 'v) call list \<Rightarrow> ('c, 'v) world \<Rightarrow> ('c, 'v) world" where
  "run [] w = w"
| "run (c # cs) w = run cs (exec c w)"

text \<open>
  The invariant of the registry in such a run: a registered name points to a handle in the
  heap that carries this name, every handle in the heap is the one registered under its
  name, no name is empty, and every handle has its logger, tagged with the module name.
\<close>

definition registry_ok :: "('c, 'v) world \<Rightarrow> bool" where
  "registry_ok w =
     ((\<forall>name a. moduleLoggers w name = Some a \<longrightarrow>
          a < length (heap w) \<and> moduleName (heap w ! a) = name)
      \<and> (\<forall>a < length (heap w).
            moduleName (heap w ! a) \<noteq> []
            \<and> moduleLoggers w (moduleName (heap w ! a)) = Some a
            \<and> (\<exists>l. Logger (heap w ! a) = Some l
                   \<and> attrs l = [(''module'', moduleName (heap w ! a))])))"

text \<open>
  Two goroutines in \<open>Register\<close>. The operations of \<open>sync.Map\<close> are atomic, and \<open>Register\<close>
  makes two of them: \<open>Load\<close>, and after a miss \<open>Store\<close>. A thread is before its \<open>Load\<close>,
  between the \<open>Load\<close> and the rest (holding what \<open>Load\<close> returned), or has returned.
  \<open>newLogx\<close> touches nothing another thread reads, so it is taken in one step with the
  \<open>Store\<close>. \<open>schedule\<close> runs the threads in the order a list of thread numbers gives.
\<close>

datatype thread =
    Called string "Options option"
  | Loaded string "Options option" "nat option"
  | Returned "nat option"

fun thread_step :: "thread \<Rightarrow> ('c, 'v) world \<Rightarrow> thread \<times> ('c, 'v) world" where
  "thread_step (Called name options) w =
     (let name' = getModuleName name in (Loaded name' options (moduleLoggers w name'), w))"
| "thread_step (Loaded name' options (Some logx)) w = (Returned (Some logx), w)"
| "thread_step (Loaded name' options None) w =
     (let (logx, w') = newLogx name' options w
      in (Returned (Some logx), w'\<lparr>moduleLoggers := (moduleLoggers w')(name' \<mapsto> logx)\<rparr>))"
| "thread_step (Returned p) w = (Returned p, w)"

fun schedule :: "nat list \<Rightarrow> thread list \<Rightarrow> ('c, 'v) world \<Rightarrow> thread list \<times> ('c, 'v) world" where
  "schedule [] ts w = (ts, w)"
| "schedule (i # is) ts w =
     (if i < length ts
      then (let (t', w') = thread_step (ts ! i) w in schedule is (ts[i := t']) w')
      else schedule is ts w)"

section \<open>Building options\<close>

lemma last_wins_Nil: "last_wins sets d [] = d"
  by (simp add: last_wins_def List.map_filter_simps)

lemma last_wins_Cons:
  "last_wins sets d (m # ms) = last_wins sets (case sets m of None \<Rightarrow> d | Some x \<Rightarrow> x) ms"
  by (simp add: last_wins_def List.map_filter_simps split: option.splits list.splits)

lemma apply_options_append:
  "apply_options (fs @ gs) opts ms =
     (case apply_options fs opts ms of Inl e \<Rightarrow> Inl e | Inr (opts', ms') \<Rightarrow> apply_options gs opts' ms')"
  by (induction fs arbitrary: opts ms) (auto split: sum.splits)

lemma modifier_fn_result:
  assumes "contextExtractors opts = Some r"
  shows "\<exists>opts' ms'. modifier_fn m opts ms = Inr (opts', ms') \<and> length ms' = length ms
           \<and> contextExtractors opts' = Some r
           \<and> level opts' = (case sets_level m of None \<Rightarrow> level opts | Some x \<Rightarrow> x)
           \<and> addSource opts' = (case sets_addSource m of None \<Rightarrow> addSource opts | Some x \<Rightarrow> x)
           \<and> outputW opts' = (case sets_output m of None \<Rightarrow> outputW opts | Some x \<Rightarrow> x)"
  using assms
  by (cases m) (simp_all add: WithLevel_def WithAddSource_def WithOutput_def WithContextExtractor_def)

lemma apply_modifiers:
  assumes "contextExtractors opts = Some r"
  shows "\<exists>opts' ms'. apply_options (map modifier_fn mods) opts ms = Inr (opts', ms')
           \<and> length ms' = length ms
           \<and> contextExtractors opts' = Some r
           \<and> level opts' = last_wins sets_level (level opts) mods
           \<and> addSource opts' = last_wins sets_addSource (addSource opts) mods
           \<and> outputW opts' = last_wins sets_output (outputW opts) mods"
  using assms
proof (induction mods arbitrary: opts ms)
  case Nil
  then show ?case by (simp add: last_wins_Nil)
next
  case (Cons m mods)
  from modifier_fn_result [OF Cons.prems, of m ms]
  obtain o1 ms1 where s: "modifier_fn m opts ms = Inr (o1, ms1)" "length ms1 = length ms"
    "contextExtractors o1 = Some r"
    "level o1 = (case sets_level m of None \<Rightarrow> level opts | Some x \<Rightarrow> x)"
    "addSource o1 = (case sets_addSource m of None \<Rightarrow> addSource opts | Some x \<Rightarrow> x)"
    "outputW o1 = (case sets_output m of None \<Rightarrow> outputW opts | Some x \<Rightarrow> x)"
    by blast
  from Cons.IH [OF s(3), of ms1] s show ?case
    by (simp add: last_wins_Cons)
qed

lemma NewOptions_Nil:
  "NewOptions [] ms =
     Inr (\<lparr>level = LevelInfo, addSource = True, outputW = Some Stdout,
           contextExtractors = Some (length ms)\<rparr>, ms @ [Map.empty])"
  by (simp add: NewOptions_def defaultOptions_def make_map_def)

lemma NewOptions_snoc:
  "NewOptions (fs @ [f]) ms =
     (case NewOptions fs ms of Inl e \<Rightarrow> Inl e | Inr (opts, ms') \<Rightarrow> f opts ms')"
  by (simp add: NewOptions_def apply_options_append split: prod.splits sum.splits)

text \<open>
  C7: \<open>NewOptions\<close> starts from the fixed default (level Info, source flag on, standard
  output, a new empty extractor map) and applies the supplied functions in the order given,
  each to the result of the ones before it; for the package's own modifiers, the level, the
  source flag and the output are those of the last modifier that sets them.
\<close>

theorem NewOptions_in_order_last_wins:
  "NewOptions [] ms =
     Inr (\<lparr>level = LevelInfo, addSource = True, outputW = Some Stdout,
           contextExtractors = Some (length ms)\<rparr>, ms @ [Map.empty])
   \<and> NewOptions (fs @ [f]) ms =
       (case NewOptions fs ms of Inl e \<Rightarrow> Inl e | Inr (opts, ms') \<Rightarrow> f opts ms')
   \<and> (\<exists>opts ms'. NewOptions (map modifier_fn mods) ms = Inr (opts, ms')
         \<and> level opts = last_wins sets_level LevelInfo mods
         \<and> addSource opts = last_wins sets_addSource True mods
         \<and> outputW opts = last_wins sets_output (Some Stdout) mods)"
proof -
  let ?d = "\<lparr>level = LevelInfo, addSource = True, outputW = Some Stdout,
             contextExtractors = Some (length ms)\<rparr>"
  have "contextExtractors ?d = Some (length ms)" by simp
  from apply_modifiers [OF this, of mods "ms @ [Map.empty]"]
  have "\<exists>opts ms'. NewOptions (map modifier_fn mods) ms = Inr (opts, ms')
         \<and> level opts = last_wins sets_level LevelInfo mods
         \<and> addSource opts = last_wins sets_addSource True mods
         \<and> outputW opts = last_wins sets_output (Some Stdout) mods"
    by (auto simp: NewOptions_def defaultOptions_def make_map_def)
  then show ?thesis
    using NewOptions_Nil [of ms] NewOptions_snoc [of fs f ms] by blast
qed

theorem NewOptions_in_order_last_wins_witness:
  "\<exists>opts ms'. NewOptions [WithLevel LevelDebug, WithOutput (Some (Sink 1)), WithAddSource False,
                  WithLevel LevelError, WithOutput (Some (Sink 2))] ([] :: unit map_store) = Inr (opts, ms')
     \<and> level opts = 8 \<and> addSource opts = False \<and> outputW opts = Some (Sink 2)"
  using NewOptions_in_order_last_wins [where ms = "[] :: unit map_store" and fs = "[]" and f = "WithLevel 0"
    and mods = "[SetLevel LevelDebug, SetOutput (Some (Sink 1)), SetAddSource False,
                  SetLevel LevelError, SetOutput (Some (Sink 2))]"]
  by (simp add: last_wins_def List.map_filter_simps LevelError_def)


lemma map_at_Some: "a < length ms \<Longrightarrow> map_at ms (Some a) = ms ! a"
  by (simp add: map_at_def)

lemma WithContextExtractor_step:
  assumes "contextExtractors opts = Some r" and "r < length ms"
  shows "WithContextExtractor key f opts ms = Inr (opts, ms[r := (ms ! r)(key \<mapsto> f)])"
  using assms by (simp add: WithContextExtractor_def)

lemma apply_extractors:
  assumes "contextExtractors opts = Some r" and "r < length ms"
  shows "apply_options (map (\<lambda>(k, f). WithContextExtractor k f) kfs) opts ms =
           Inr (opts, ms[r := (ms ! r) ++ map_of (rev kfs)])"
  using assms
proof (induction kfs arbitrary: ms)
  case Nil
  then show ?case by simp
next
  case (Cons kf kfs)
  obtain k f where kf: "kf = (k, f)" by (cases kf)
  let ?ms1 = "ms[r := (ms ! r)(k \<mapsto> f)]"
  have len: "r < length ?ms1" using Cons.prems by simp
  have m: "(ms ! r)(k \<mapsto> f) ++ map_of (rev kfs) = (ms ! r) ++ map_of (rev (kf # kfs))"
    by (simp add: kf map_add_upd_left fun_eq_iff map_add_def split: option.splits)
  have step: "WithContextExtractor k f opts ms = Inr (opts, ?ms1)"
    using Cons.prems by (rule WithContextExtractor_step)
  have "?ms1[r := (?ms1 ! r) ++ map_of (rev kfs)] = ms[r := (ms ! r)(k \<mapsto> f) ++ map_of (rev kfs)]"
    using Cons.prems(2) by simp
  also have "\<dots> = ms[r := (ms ! r) ++ map_of (rev (kf # kfs))]"
    by (simp only: m)
  finally show ?case
    using Cons.IH [OF Cons.prems(1) len] step by (simp add: kf)
qed

lemma map_of_rev_last:
  "kfs = pre @ (k, f) # post \<Longrightarrow> k \<notin> fst ` set post \<Longrightarrow> map_of (rev kfs) k = Some f"
  by (simp add: map_add_Some_iff map_of_eq_None_iff)

text \<open>
  C8: a call \<open>WithContextExtractor key f\<close> writes the entry for \<open>key\<close> in the map the
  options point to, and nothing else: the other entries of that map and the other maps stay.
  A sequence of such calls given to \<open>NewOptions\<close> leaves a map whose keys are exactly the
  keys of the calls, each bound to the function of the last call for that key; with
  pairwise distinct keys every call's function is registered.
\<close>

theorem WithContextExtractor_accumulates:
  "(contextExtractors opts = Some r \<and> r < length ms \<longrightarrow>
      (\<exists>ms'. WithContextExtractor key f opts ms = Inr (opts, ms')
         \<and> length ms' = length ms
         \<and> map_at ms' (Some r) key = Some f
         \<and> (\<forall>k. k \<noteq> key \<longrightarrow> map_at ms' (Some r) k = map_at ms (Some r) k)
         \<and> (\<forall>a. a \<noteq> r \<longrightarrow> map_at ms' (Some a) = map_at ms (Some a))))
   \<and> (\<exists>opts' ms'. NewOptions (map (\<lambda>(k, f). WithContextExtractor k f) kfs) ms = Inr (opts', ms')
         \<and> map_at ms' (contextExtractors opts') = map_of (rev kfs)
         \<and> dom (map_at ms' (contextExtractors opts')) = fst ` set kfs
         \<and> (\<forall>pre k g post. kfs = pre @ (k, g) # post \<and> k \<notin> fst ` set post \<longrightarrow>
               map_at ms' (contextExtractors opts') k = Some g)
         \<and> (distinct (map fst kfs) \<longrightarrow>
               (\<forall>(k, g) \<in> set kfs. map_at ms' (contextExtractors opts') k = Some g)))"
proof -
  have one: "contextExtractors opts = Some r \<and> r < length ms \<longrightarrow>
      (\<exists>ms'. WithContextExtractor key f opts ms = Inr (opts, ms')
         \<and> length ms' = length ms
         \<and> map_at ms' (Some r) key = Some f
         \<and> (\<forall>k. k \<noteq> key \<longrightarrow> map_at ms' (Some r) k = map_at ms (Some r) k)
         \<and> (\<forall>a. a \<noteq> r \<longrightarrow> map_at ms' (Some a) = map_at ms (Some a)))"
    by (auto simp: WithContextExtractor_step map_at_def)
  let ?d = "\<lparr>level = LevelInfo, addSource = True, outputW = Some Stdout,
             contextExtractors = Some (length ms)\<rparr>"
  let ?ms' = "(ms @ [Map.empty])[length ms := (Map.empty :: string \<rightharpoonup> 'a ContextExtractor) ++ map_of (rev kfs)]"
  have new: "NewOptions (map (\<lambda>(k, f). WithContextExtractor k f) kfs) ms = Inr (?d, ?ms')"
    using apply_extractors [of ?d "length ms" "ms @ [Map.empty]" kfs]
    by (simp add: NewOptions_def defaultOptions_def make_map_def)
  have ce: "map_at ?ms' (contextExtractors ?d) = map_of (rev kfs)"
    by (simp add: map_at_def)
  have d: "dom (map_of (rev kfs)) = fst ` set kfs"
    by (simp add: dom_map_of_conv_image_fst)
  have l: "\<forall>pre k g post. kfs = pre @ (k, g) # post \<and> k \<notin> fst ` set post \<longrightarrow>
               map_of (rev kfs) k = Some g"
    using map_of_rev_last by fast
  have a: "distinct (map fst kfs) \<longrightarrow> (\<forall>(k, g) \<in> set kfs. map_of (rev kfs) k = Some g)"
    by (auto simp: distinct_rev rev_map [symmetric])
  have seq: "\<exists>opts' ms'. NewOptions (map (\<lambda>(k, f). WithContextExtractor k f) kfs) ms = Inr (opts', ms')
         \<and> map_at ms' (contextExtractors opts') = map_of (rev kfs)
         \<and> dom (map_at ms' (contextExtractors opts')) = fst ` set kfs
         \<and> (\<forall>pre k g post. kfs = pre @ (k, g) # post \<and> k \<notin> fst ` set post \<longrightarrow>
               map_at ms' (contextExtractors opts') k = Some g)
         \<and> (distinct (map fst kfs) \<longrightarrow>
               (\<forall>(k, g) \<in> set kfs. map_at ms' (contextExtractors opts') k = Some g))"
  proof (intro exI conjI)
    show "NewOptions (map (\<lambda>(k, f). WithContextExtractor k f) kfs) ms = Inr (?d, ?ms')"
      by (rule new)
  qed (use d l a in \<open>simp_all only: ce\<close>)
  from one seq show ?thesis by (rule conjI)
qed

theorem WithContextExtractor_accumulates_witness:
  "(\<exists>ms'. WithContextExtractor ''b'' (\<lambda>_ :: unit. Inr ''2'')
             \<lparr>level = 0, addSource = True, outputW = None, contextExtractors = Some 0\<rparr>
             [[''a'' \<mapsto> (\<lambda>_. Inr ''1'')]]
           = Inr (\<lparr>level = 0, addSource = True, outputW = None, contextExtractors = Some 0\<rparr>, ms')
         \<and> map_at ms' (Some 0) ''b'' = Some (\<lambda>_. Inr ''2'')
         \<and> map_at ms' (Some 0) ''a'' = Some (\<lambda>_. Inr ''1''))
   \<and> (\<exists>opts' ms'. NewOptions [WithContextExtractor ''a'' (\<lambda>_ :: unit. Inr ''1''),
                                WithContextExtractor ''b'' (\<lambda>_. Inr ''2''),
                                WithContextExtractor ''a'' (\<lambda>_. Inr ''3'')] [] = Inr (opts', ms')
         \<and> map_at ms' (contextExtractors opts') ''a'' = Some (\<lambda>_. Inr ''3'')
         \<and> map_at ms' (contextExtractors opts') ''b'' = Some (\<lambda>_. Inr ''2'')
         \<and> dom (map_at ms' (contextExtractors opts')) = {''a'', ''b''})"
proof -
  let ?o = "\<lparr>level = 0, addSource = True, outputW = None, contextExtractors = Some 0\<rparr>"
  let ?ms = "[[''a'' \<mapsto> (\<lambda>_ :: unit. Inr ''1'')]]"
  let ?kfs = "[(''a'', \<lambda>_ :: unit. Inr ''1''), (''b'', \<lambda>_. Inr ''2''), (''a'', \<lambda>_. Inr ''3'')]"
  note inst1 = WithContextExtractor_accumulates [where opts = ?o and r = 0 and ms = ?ms
      and key = "''b''" and f = "\<lambda>_. Inr ''2''" and kfs = ?kfs]
  have h: "contextExtractors ?o = Some 0 \<and> 0 < length ?ms" by simp
  from inst1 h obtain ms1 where
    one: "WithContextExtractor ''b'' (\<lambda>_. Inr ''2'') ?o ?ms = Inr (?o, ms1)"
      "map_at ms1 (Some 0) ''b'' = Some (\<lambda>_. Inr ''2'')"
      "\<forall>k. k \<noteq> ''b'' \<longrightarrow> map_at ms1 (Some 0) k = map_at ?ms (Some 0) k"
    by blast
  from one(3) have "map_at ms1 (Some 0) ''a'' = Some (\<lambda>_. Inr ''1'')"
    by (simp add: map_at_def)
  with one have first: "\<exists>ms'. WithContextExtractor ''b'' (\<lambda>_ :: unit. Inr ''2'') ?o ?ms = Inr (?o, ms')
         \<and> map_at ms' (Some 0) ''b'' = Some (\<lambda>_. Inr ''2'')
         \<and> map_at ms' (Some 0) ''a'' = Some (\<lambda>_. Inr ''1'')"
    by blast
  note inst2 = WithContextExtractor_accumulates [where opts = ?o and r = 0 and ms = "[] :: unit map_store"
      and key = "''b''" and f = "\<lambda>_. Inr ''2''" and kfs = ?kfs]
  from inst2 obtain opts2 ms2 where
    two: "NewOptions (map (\<lambda>(k, f). WithContextExtractor k f) ?kfs) [] = Inr (opts2, ms2)"
      "map_at ms2 (contextExtractors opts2) = map_of (rev ?kfs)"
    by blast
  have "\<exists>opts' ms'. NewOptions (map (\<lambda>(k, f). WithContextExtractor k f) ?kfs) [] = Inr (opts', ms')
         \<and> map_at ms' (contextExtractors opts') ''a'' = Some (\<lambda>_. Inr ''3'')
         \<and> map_at ms' (contextExtractors opts') ''b'' = Some (\<lambda>_. Inr ''2'')
         \<and> dom (map_at ms' (contextExtractors opts')) = {''a'', ''b''}"
    apply (rule exI [of _ opts2], rule exI [of _ ms2])
    apply (simp only: two)
    apply auto
    done
  then have second: "\<exists>opts' ms'. NewOptions [WithContextExtractor ''a'' (\<lambda>_ :: unit. Inr ''1''),
                                WithContextExtractor ''b'' (\<lambda>_. Inr ''2''),
                                WithContextExtractor ''a'' (\<lambda>_. Inr ''3'')] [] = Inr (opts', ms')
         \<and> map_at ms' (contextExtractors opts') ''a'' = Some (\<lambda>_. Inr ''3'')
         \<and> map_at ms' (contextExtractors opts') ''b'' = Some (\<lambda>_. Inr ''2'')
         \<and> dom (map_at ms' (contextExtractors opts')) = {''a'', ''b''}"
    by simp
  from first second show ?thesis by (rule conjI)
qed

lemma modifier_fn_fields:
  "modifier_fn m opts ms = Inr (opts', ms') \<Longrightarrow>
     contextExtractors opts' = contextExtractors opts
     \<and> level opts' = (case sets_level m of None \<Rightarrow> level opts | Some x \<Rightarrow> x)
     \<and> addSource opts' = (case sets_addSource m of None \<Rightarrow> addSource opts | Some x \<Rightarrow> x)
     \<and> outputW opts' = (case sets_output m of None \<Rightarrow> outputW opts | Some x \<Rightarrow> x)"
  by (cases m)
     (auto simp: WithLevel_def WithAddSource_def WithOutput_def WithContextExtractor_def
           split: option.splits if_splits)

lemma apply_modifiers_fields:
  "apply_options (map modifier_fn mods) opts ms = Inr (opts', ms') \<Longrightarrow>
     contextExtractors opts' = contextExtractors opts
     \<and> level opts' = last_wins sets_level (level opts) mods
     \<and> addSource opts' = last_wins sets_addSource (addSource opts) mods
     \<and> outputW opts' = last_wins sets_output (outputW opts) mods"
proof (induction mods arbitrary: opts ms)
  case Nil
  then show ?case by (simp add: last_wins_Nil)
next
  case (Cons m mods)
  from Cons.prems obtain o1 ms1 where
    s: "modifier_fn m opts ms = Inr (o1, ms1)"
    and r: "apply_options (map modifier_fn mods) o1 ms1 = Inr (opts', ms')"
    by (auto split: sum.splits)
  from modifier_fn_fields [OF s] Cons.IH [OF r] show ?case
    by (simp add: last_wins_Cons)
qed

lemma last_wins_none: "\<forall>m \<in> set ms. sets m = None \<Longrightarrow> last_wins sets d ms = d"
  by (induction ms arbitrary: d) (simp_all add: last_wins_Nil last_wins_Cons)

lemma configLogger_eq:
  "configLogger lg options ms =
     (let (opts, ms') = (case options of None \<Rightarrow> defaultOptions ms | Some p \<Rightarrow> (p, ms))
      in (\<lparr>Logger = Some \<lparr>handler_w = outputW opts, handler_AddSource = addSource opts,
                            handler_Level = level opts, attrs = [(''module'', moduleName lg)]\<rparr>,
           moduleName = moduleName lg, lx_contextExtractors = contextExtractors opts\<rparr>, ms'))"
  by (cases lg) (simp add: configLogger_def slog_New_JSONHandler_def slog_With_def Let_def split: prod.splits)

text \<open>The struct \<open>newLogx name options\<close> builds, and the store of maps after it.\<close>

lemma newLogx_eq:
  "newLogx name options w =
     (let (opts, ms') = (case options of None \<Rightarrow> defaultOptions (maps w) | Some p \<Rightarrow> (p, maps w))
      in (length (heap w),
          w\<lparr>heap := heap w @
               [\<lparr>Logger = Some \<lparr>handler_w = outputW opts, handler_AddSource = addSource opts,
                                 handler_Level = level opts, attrs = [(''module'', name)]\<rparr>,
                 moduleName = name, lx_contextExtractors = contextExtractors opts\<rparr>],
            maps := ms'\<rparr>))"
  by (simp add: newLogx_def configLogger_eq Let_def split: prod.splits)

lemma Register_registered:
  "moduleLoggers w (getModuleName name) = Some a \<Longrightarrow> Register name options w = (Some a, w)"
  by (simp add: Register_def)

lemma Register_fresh:
  "moduleLoggers w (getModuleName name) = None \<Longrightarrow>
   Register name options w =
     (let (logx, w') = newLogx (getModuleName name) options w
      in (Some logx, w'\<lparr>moduleLoggers := (moduleLoggers w')(getModuleName name \<mapsto> logx)\<rparr>))"
  by (simp add: Register_def Let_def)

lemma emit_handle:
  assumes "a < length (heap w)" and "Logger (heap w ! a) = Some l"
    and "setValueFromContext ctx (map_at (maps w) (lx_contextExtractors (heap w ! a))) order args = Inr args'"
  shows "emit backend (Some a) ctx order msg args w =
           (case backend l ctx msg args' (sinks w) of Inl e \<Rightarrow> Inl e | Inr out \<Rightarrow> Inr (w\<lparr>sinks := out\<rparr>))"
  using assms by (simp add: emit_def)

lemma slog_log_enabled:
  "handler_Level l \<le> lv \<Longrightarrow> handler_w l = Some wr \<Longrightarrow>
   slog_log l lv msg args out = Inr (out(wr := out wr @ [slog_record l lv msg args]))"
  by (simp add: slog_log_def)

lemma NewOptions_then_modifiers_output:
  assumes "NewOptions (fs @ WithOutput None # map modifier_fn mods) ms = Inr (opts, ms')"
    and "\<forall>m \<in> set mods. sets_output m = None"
  shows "outputW opts = Some Stdout"
proof -
  from assms(1) obtain o1 ms1 where
    r: "apply_options (map modifier_fn mods) (o1\<lparr>outputW := Some Stdout\<rparr>) ms1 = Inr (opts, ms')"
    by (auto simp: NewOptions_def apply_options_append WithOutput_def split: prod.splits sum.splits)
  from apply_modifiers_fields [OF r] last_wins_none [OF assms(2)] show ?thesis
    by simp
qed

lemma Register_fresh_Some:
  assumes "moduleLoggers w (getModuleName name) = None"
  shows "Register name (Some opts) w =
     (Some (length (heap w)),
      w\<lparr>heap := heap w @
           [\<lparr>Logger = Some \<lparr>handler_w = outputW opts, handler_AddSource = addSource opts,
                             handler_Level = level opts, attrs = [(''module'', getModuleName name)]\<rparr>,
             moduleName = getModuleName name, lx_contextExtractors = contextExtractors opts\<rparr>],
         moduleLoggers := (moduleLoggers w)(getModuleName name \<mapsto> length (heap w))\<rparr>)"
  using assms by (simp add: Register_fresh newLogx_eq)

lemma emit_slog_log:
  assumes "a < length (heap w)" and "Logger (heap w ! a) = Some l"
    and "setValueFromContext ctx (map_at (maps w) (lx_contextExtractors (heap w ! a))) order args = Inr args'"
    and "handler_Level l \<le> lv" and "handler_w l = Some wr"
  shows "emit (\<lambda>l ctx. slog_log l lv) (Some a) ctx order msg args w =
           Inr (w\<lparr>sinks := (sinks w)(wr := sinks w wr @ [slog_record l lv msg args'])\<rparr>)"
  using assms by (simp add: emit_handle slog_log_enabled)

lemma Context_methods:
  "InfoContext = emit (\<lambda>l (ctx :: 'a). slog_log l LevelInfo)"
  "DebugContext = emit (\<lambda>l (ctx :: 'a). slog_log l LevelDebug)"
  "WarnContext = emit (\<lambda>l (ctx :: 'a). slog_log l LevelWarn)"
  "ErrorContext = emit (\<lambda>l (ctx :: 'a). slog_log l LevelError)"
proof -
  have b: "slog_InfoContext = (\<lambda>l (ctx :: 'a). slog_log l LevelInfo)"
    "slog_DebugContext = (\<lambda>l (ctx :: 'a). slog_log l LevelDebug)"
    "slog_WarnContext = (\<lambda>l (ctx :: 'a). slog_log l LevelWarn)"
    "slog_ErrorContext = (\<lambda>l (ctx :: 'a). slog_log l LevelError)"
    by (simp_all add: fun_eq_iff slog_InfoContext_def slog_DebugContext_def
        slog_WarnContext_def slog_ErrorContext_def)
  show "InfoContext = emit (\<lambda>l (ctx :: 'a). slog_log l LevelInfo)"
    "DebugContext = emit (\<lambda>l (ctx :: 'a). slog_log l LevelDebug)"
    "WarnContext = emit (\<lambda>l (ctx :: 'a). slog_log l LevelWarn)"
    "ErrorContext = emit (\<lambda>l (ctx :: 'a). slog_log l LevelError)"
    unfolding b [symmetric]
    by (simp_all add: fun_eq_iff InfoContext_def DebugContext_def WarnContext_def ErrorContext_def)
qed

lemma nil_output_handle_writes_stdout:
  assumes built: "NewOptions (fs @ WithOutput None # map modifier_fn mods) (maps w) = Inr (opts, ms')"
    and later: "\<forall>m \<in> set mods. sets_output m = None"
    and fresh: "moduleLoggers w (getModuleName name) = None"
    and reg: "Register name (Some opts) (w\<lparr>maps := ms'\<rparr>) = (c, w1)"
    and ext: "setValueFromContext ctx (map_at (maps w1) (contextExtractors opts)) order args = Inr args'"
  shows "outputW opts = Some Stdout
    \<and> (\<exists>a l. c = Some a \<and> a < length (heap w1) \<and> Logger (heap w1 ! a) = Some l
          \<and> handler_w l = Some Stdout
          \<and> (level opts \<le> LevelInfo \<longrightarrow> InfoContext c ctx order msg args w1 =
                Inr (w1\<lparr>sinks := (sinks w1)(Stdout := sinks w1 Stdout @ [slog_record l LevelInfo msg args'])\<rparr>))
          \<and> (level opts \<le> LevelDebug \<longrightarrow> DebugContext c ctx order msg args w1 =
                Inr (w1\<lparr>sinks := (sinks w1)(Stdout := sinks w1 Stdout @ [slog_record l LevelDebug msg args'])\<rparr>))
          \<and> (level opts \<le> LevelWarn \<longrightarrow> WarnContext c ctx order msg args w1 =
                Inr (w1\<lparr>sinks := (sinks w1)(Stdout := sinks w1 Stdout @ [slog_record l LevelWarn msg args'])\<rparr>))
          \<and> (level opts \<le> LevelError \<longrightarrow> ErrorContext c ctx order msg args w1 =
                Inr (w1\<lparr>sinks := (sinks w1)(Stdout := sinks w1 Stdout @ [slog_record l LevelError msg args'])\<rparr>)))"
proof -
  have out: "outputW opts = Some Stdout"
    using built later by (rule NewOptions_then_modifiers_output)
  let ?l = "\<lparr>handler_w = outputW opts, handler_AddSource = addSource opts,
             handler_Level = level opts, attrs = [(''module'', getModuleName name)]\<rparr>"
  let ?a = "length (heap w)"
  from fresh have fresh': "moduleLoggers (w\<lparr>maps := ms'\<rparr>) (getModuleName name) = None" by simp
  from reg have c: "c = Some ?a"
    and w1: "w1 = w\<lparr>maps := ms', heap := heap w @
           [\<lparr>Logger = Some ?l, moduleName = getModuleName name,
             lx_contextExtractors = contextExtractors opts\<rparr>],
         moduleLoggers := (moduleLoggers w)(getModuleName name \<mapsto> ?a)\<rparr>"
    unfolding Register_fresh_Some [OF fresh'] by auto
  have a: "?a < length (heap w1)" by (simp add: w1)
  have lg: "Logger (heap w1 ! ?a) = Some ?l" by (simp add: w1)
  have ce: "lx_contextExtractors (heap w1 ! ?a) = contextExtractors opts" by (simp add: w1)
  have hw: "handler_w ?l = Some Stdout" using out by simp
  have e: "setValueFromContext ctx (map_at (maps w1) (lx_contextExtractors (heap w1 ! ?a))) order args = Inr args'"
    using ext by (simp only: ce)
  have em: "\<And>lv. level opts \<le> lv \<Longrightarrow> emit (\<lambda>l ctx. slog_log l lv) (Some ?a) ctx order msg args w1 =
           Inr (w1\<lparr>sinks := (sinks w1)(Stdout := sinks w1 Stdout @ [slog_record ?l lv msg args'])\<rparr>)"
    by (rule emit_slog_log [OF a lg e _ hw]) simp
  show ?thesis
    apply (intro conjI)
     apply (rule out)
    apply (rule exI [of _ ?a], rule exI [of _ ?l])
    apply (intro conjI impI)
           apply (rule c)
          apply (rule a)
         apply (rule lg)
        apply (rule hw)
       apply (simp only: Context_methods c em)+
    done
qed

text \<open>
  C9: \<open>WithOutput\<close> of the nil writer never panics and sets the output to the standard
  output. Options built by \<open>NewOptions\<close> with \<open>WithOutput(nil)\<close> as the last modifier that
  sets the output, registered under a new name, give a handle whose logger writes to the
  standard output: each emission that the level lets through appends its record there.
\<close>

theorem WithOutput_nil_writes_to_stdout:
  "WithOutput None p ms = Inr (p\<lparr>outputW := Some Stdout\<rparr>, ms)
   \<and> (NewOptions (fs @ WithOutput None # map modifier_fn mods) (maps w) = Inr (opts, ms')
       \<and> (\<forall>m \<in> set mods. sets_output m = None)
       \<and> moduleLoggers w (getModuleName name) = None
       \<and> Register name (Some opts) (w\<lparr>maps := ms'\<rparr>) = (c, w1)
       \<and> setValueFromContext ctx (map_at (maps w1) (contextExtractors opts)) order args = Inr args'
      \<longrightarrow> outputW opts = Some Stdout
    \<and> (\<exists>a l. c = Some a \<and> a < length (heap w1) \<and> Logger (heap w1 ! a) = Some l
          \<and> handler_w l = Some Stdout
          \<and> (level opts \<le> LevelInfo \<longrightarrow> InfoContext c ctx order msg args w1 =
                Inr (w1\<lparr>sinks := (sinks w1)(Stdout := sinks w1 Stdout @ [slog_record l LevelInfo msg args'])\<rparr>))
          \<and> (level opts \<le> LevelDebug \<longrightarrow> DebugContext c ctx order msg args w1 =
                Inr (w1\<lparr>sinks := (sinks w1)(Stdout := sinks w1 Stdout @ [slog_record l LevelDebug msg args'])\<rparr>))
          \<and> (level opts \<le> LevelWarn \<longrightarrow> WarnContext c ctx order msg args w1 =
                Inr (w1\<lparr>sinks := (sinks w1)(Stdout := sinks w1 Stdout @ [slog_record l LevelWarn msg args'])\<rparr>))
          \<and> (level opts \<le> LevelError \<longrightarrow> ErrorContext c ctx order msg args w1 =
                Inr (w1\<lparr>sinks := (sinks w1)(Stdout := sinks w1 Stdout @ [slog_record l LevelError msg args'])\<rparr>))))"
  (is "?nil \<and> (?built \<and> ?later \<and> ?fresh \<and> ?reg \<and> ?ext \<longrightarrow> ?stdout)")
proof (rule conjI)
  show ?nil
    by (simp add: WithOutput_def)
next
  show "?built \<and> ?later \<and> ?fresh \<and> ?reg \<and> ?ext \<longrightarrow> ?stdout"
  proof (rule impI, elim conjE)
    assume ?built ?later ?fresh ?reg ?ext
    then show ?stdout
      by (rule nil_output_handle_writes_stdout)
  qed
qed

theorem WithOutput_nil_writes_to_stdout_witness:
  "NewOptions ([WithContextExtractor ''rid'' (\<lambda>_ :: unit. Inr ''42'')]
       @ WithOutput None # map modifier_fn [SetLevel LevelDebug]) (maps (init_world :: (unit, nat) world))
     = Inr (\<lparr>level = LevelDebug, addSource = True, outputW = Some Stdout, contextExtractors = Some 0\<rparr>,
            [[''rid'' \<mapsto> (\<lambda>_. Inr ''42'')]])
   \<and> (\<exists>w1 l. Register ''svc''
          (Some \<lparr>level = LevelDebug, addSource = True, outputW = Some Stdout, contextExtractors = Some 0\<rparr>)
          ((init_world :: (unit, nat) world)\<lparr>maps := [[''rid'' \<mapsto> (\<lambda>_. Inr ''42'')]]\<rparr>) = (Some 0, w1)
        \<and> handler_w l = Some Stdout
        \<and> DebugContext (Some 0) () [''rid''] ''hello'' [Val 7] w1 =
            Inr (w1\<lparr>sinks := (sinks w1)(Stdout := sinks w1 Stdout @
              [slog_record l LevelDebug ''hello'' [Val 7, Attr ''rid'' ''42'']])\<rparr>))"
proof -
  let ?opts = "\<lparr>level = LevelDebug, addSource = True, outputW = Some Stdout, contextExtractors = Some 0\<rparr>"
  let ?ms = "[[''rid'' \<mapsto> (\<lambda>_ :: unit. Inr ''42'')]]"
  let ?w = "init_world :: (unit, nat) world"
  let ?r = "Register ''svc'' (Some ?opts) (?w\<lparr>maps := ?ms\<rparr>)"
  have built: "NewOptions ([WithContextExtractor ''rid'' (\<lambda>_ :: unit. Inr ''42'')]
       @ WithOutput None # map modifier_fn [SetLevel LevelDebug]) (maps ?w) = Inr (?opts, ?ms)"
    by (simp add: NewOptions_def defaultOptions_def make_map_def WithContextExtractor_def
        WithOutput_def WithLevel_def init_world_def)
  have later: "\<forall>m \<in> set [SetLevel LevelDebug :: unit modifier]. sets_output m = None"
    by simp
  have fresh: "moduleLoggers ?w (getModuleName ''svc'') = None"
    by (simp add: init_world_def)
  have reg: "?r = (Some 0, snd ?r)"
    by (simp add: Register_def newLogx_def init_world_def getModuleName_def Let_def split: prod.splits)
  have ext: "setValueFromContext () (map_at (maps (snd ?r)) (contextExtractors ?opts)) [''rid''] [Val (7 :: nat)]
      = Inr [Val 7, Attr ''rid'' ''42'']"
    by (simp add: Register_def newLogx_def configLogger_def init_world_def getModuleName_def
        Let_def map_at_def slog_String_def split: prod.splits)
  from WithOutput_nil_writes_to_stdout [where p = ?opts and ms = ?ms and msg = "''hello''"
      and fs = "[WithContextExtractor ''rid'' (\<lambda>_ :: unit. Inr ''42'')]"
      and mods = "[SetLevel LevelDebug]" and w = ?w and opts = ?opts and ms' = ?ms
      and name = "''svc''" and c = "Some 0" and ?w1.0 = "snd ?r" and ctx = "()"
      and order = "[''rid'']" and args = "[Val 7]" and args' = "[Val 7, Attr ''rid'' ''42'']"]
    built later fresh reg ext
  obtain l where "handler_w l = Some Stdout"
    "DebugContext (Some 0) () [''rid''] ''hello'' [Val 7] (snd ?r) =
            Inr ((snd ?r)\<lparr>sinks := (sinks (snd ?r))(Stdout := sinks (snd ?r) Stdout @
              [slog_record l LevelDebug ''hello'' [Val 7, Attr ''rid'' ''42'']])\<rparr>)"
    by auto
  with reg built show ?thesis by blast
qed

section \<open>The registry\<close>

lemma getModuleName_nonempty: "getModuleName name \<noteq> []"
  by (simp add: getModuleName_def defaultModuleName_def)

lemma getModuleName_idem: "getModuleName (getModuleName name) = getModuleName name"
  by (simp add: getModuleName_def defaultModuleName_def)

lemma getModuleName_empty: "getModuleName [] = getModuleName ''default''"
  by (simp add: getModuleName_def defaultModuleName_def)

lemma Register_fresh_eq:
  assumes "moduleLoggers w (getModuleName name) = None"
  shows "Register name options w =
     (let (opts, ms') = (case options of None \<Rightarrow> defaultOptions (maps w) | Some p \<Rightarrow> (p, maps w))
      in (Some (length (heap w)),
          w\<lparr>heap := heap w @
               [\<lparr>Logger = Some \<lparr>handler_w = outputW opts, handler_AddSource = addSource opts,
                                 handler_Level = level opts,
                                 attrs = [(''module'', getModuleName name)]\<rparr>,
                 moduleName = getModuleName name, lx_contextExtractors = contextExtractors opts\<rparr>],
            maps := ms',
            moduleLoggers := (moduleLoggers w)(getModuleName name \<mapsto> length (heap w))\<rparr>))"
  using assms by (simp add: Register_fresh newLogx_eq Let_def split: prod.splits)

lemma Register_result:
  "\<exists>a. fst (Register name options w) = Some a
       \<and> moduleLoggers (snd (Register name options w)) (getModuleName name) = Some a"
proof (cases "moduleLoggers w (getModuleName name)")
  case None
  then show ?thesis by (simp add: Register_fresh_eq Let_def split: prod.splits)
next
  case (Some a)
  then show ?thesis by (simp add: Register_registered)
qed

lemma Register_again:
  assumes "Register name o1 w = (h1, w1)"
  shows "Register name o2 w1 = (h1, w1)"
proof -
  from Register_result [of name o1 w] assms obtain a where
    "h1 = Some a" "moduleLoggers w1 (getModuleName name) = Some a"
    by auto
  then show ?thesis by (simp add: Register_registered)
qed

lemma Register_keeps:
  "moduleLoggers w n = Some a \<Longrightarrow> moduleLoggers (snd (Register name options w)) n = Some a"
  by (cases "moduleLoggers w (getModuleName name)")
     (auto simp: Register_fresh_eq Register_registered Let_def split: prod.splits)

lemma GetLogger_snd: "snd (GetLogger name w) = w"
  by (simp add: GetLogger_def Let_def split: option.splits)

lemma Default_eq:
  "Default w = (case moduleLoggers w defaultModuleName of
                  None \<Rightarrow> Register [] None w
                | Some a \<Rightarrow> (Some a, w))"
  by (simp add: Default_def GetLogger_def getModuleName_def defaultModuleName_def Let_def
      split: option.splits)

lemma Default_as_Register: "Default w = Register [] None w"
  by (simp add: Default_eq Register_def getModuleName_def Let_def split: option.splits)

lemma emit_changes_sinks:
  "emit backend c ctx order msg args w = Inr w' \<Longrightarrow> \<exists>out. w' = w\<lparr>sinks := out\<rparr>"
  by (auto simp: emit_def Let_def split: option.splits if_splits sum.splits)

lemma emit_at_changes_sinks:
  "emit_at s c ctx order msg args w = Inr w' \<Longrightarrow> \<exists>out. w' = w\<lparr>sinks := out\<rparr>"
  by (cases s)
     (auto simp: InfoContext_def DebugContext_def WarnContext_def ErrorContext_def
           dest: emit_changes_sinks)

lemma exec_keeps:
  "moduleLoggers w n = Some a \<Longrightarrow> moduleLoggers (exec c w) n = Some a"
proof (cases c)
  case (Call_Emit s p ctx order msg args)
  then show "moduleLoggers w n = Some a \<Longrightarrow> ?thesis"
    by (auto split: sum.splits dest: emit_at_changes_sinks)
qed (auto simp: Register_keeps GetLogger_snd Default_as_Register split: sum.splits)

lemma run_keeps:
  "moduleLoggers w n = Some a \<Longrightarrow> moduleLoggers (run cs w) n = Some a"
  by (induction cs arbitrary: w) (simp_all add: exec_keeps)

section \<open>The invariant\<close>

lemma registry_ok_init: "registry_ok init_world"
  by (simp add: registry_ok_def init_world_def)

lemma registry_ok_sinks_maps: "registry_ok w \<Longrightarrow> registry_ok (w\<lparr>sinks := out\<rparr>)"
  "registry_ok w \<Longrightarrow> registry_ok (w\<lparr>maps := ms\<rparr>)"
  by (simp_all add: registry_ok_def)

lemma registry_ok_add:
  assumes ok: "registry_ok w" and fresh: "moduleLoggers w n = None" and n: "n \<noteq> []"
    and lx: "moduleName lx = n" "Logger lx = Some l" "attrs l = [(''module'', n)]"
  shows "registry_ok (w\<lparr>heap := heap w @ [lx], maps := ms,
                        moduleLoggers := (moduleLoggers w)(n \<mapsto> length (heap w))\<rparr>)"
proof -
  let ?w' = "w\<lparr>heap := heap w @ [lx], maps := ms,
                 moduleLoggers := (moduleLoggers w)(n \<mapsto> length (heap w))\<rparr>"
  from ok have reg: "\<And>name a. moduleLoggers w name = Some a \<Longrightarrow>
      a < length (heap w) \<and> moduleName (heap w ! a) = name"
    and hp: "\<And>a. a < length (heap w) \<Longrightarrow> moduleName (heap w ! a) \<noteq> []
            \<and> moduleLoggers w (moduleName (heap w ! a)) = Some a
            \<and> (\<exists>l. Logger (heap w ! a) = Some l \<and> attrs l = [(''module'', moduleName (heap w ! a))])"
    unfolding registry_ok_def by blast+
  have old: "\<And>a. a < length (heap w) \<Longrightarrow> moduleName (heap w ! a) \<noteq> n"
    using hp fresh by fastforce
  have 1: "\<forall>name a. moduleLoggers ?w' name = Some a \<longrightarrow>
          a < length (heap ?w') \<and> moduleName (heap ?w' ! a) = name"
  proof (intro allI impI)
    fix name a assume h: "moduleLoggers ?w' name = Some a"
    show "a < length (heap ?w') \<and> moduleName (heap ?w' ! a) = name"
    proof (cases "name = n")
      case True
      with h have "a = length (heap w)" by simp
      with True lx show ?thesis by simp
    next
      case False
      with h have "moduleLoggers w name = Some a" by simp
      from reg [OF this] show ?thesis by (simp add: nth_append)
    qed
  qed
  have 2: "\<forall>a < length (heap ?w').
            moduleName (heap ?w' ! a) \<noteq> []
            \<and> moduleLoggers ?w' (moduleName (heap ?w' ! a)) = Some a
            \<and> (\<exists>l. Logger (heap ?w' ! a) = Some l
                   \<and> attrs l = [(''module'', moduleName (heap ?w' ! a))])"
  proof (intro allI impI)
    fix a assume "a < length (heap ?w')"
    then consider "a < length (heap w)" | "a = length (heap w)" by fastforce
    then show "moduleName (heap ?w' ! a) \<noteq> []
            \<and> moduleLoggers ?w' (moduleName (heap ?w' ! a)) = Some a
            \<and> (\<exists>l. Logger (heap ?w' ! a) = Some l
                   \<and> attrs l = [(''module'', moduleName (heap ?w' ! a))])"
    proof cases
      case 1
      with hp [OF 1] old [OF 1] show ?thesis by (simp add: nth_append)
    next
      case 2
      with n lx show ?thesis by simp
    qed
  qed
  from 1 2 show ?thesis unfolding registry_ok_def by (rule conjI)
qed

lemma registry_ok_Register:
  assumes "registry_ok w"
  shows "registry_ok (snd (Register name options w))"
proof (cases "moduleLoggers w (getModuleName name)")
  case (Some a)
  with assms show ?thesis by (simp add: Register_registered)
next
  case None
  show ?thesis
    unfolding Register_fresh_eq [OF None] Let_def
    by (cases "case options of None \<Rightarrow> defaultOptions (maps w) | Some p \<Rightarrow> (p, maps w)")
       (simp add: registry_ok_add [OF assms None getModuleName_nonempty])
qed

lemma registry_ok_exec: "registry_ok w \<Longrightarrow> registry_ok (exec c w)"
proof (cases c)
  case (Call_Emit s p ctx order msg args)
  then show "registry_ok w \<Longrightarrow> ?thesis"
    by (auto split: sum.splits dest!: emit_at_changes_sinks simp: registry_ok_sinks_maps)
qed (auto simp: registry_ok_Register GetLogger_snd Default_as_Register registry_ok_sinks_maps
          split: sum.splits)

lemma registry_ok_run: "registry_ok w \<Longrightarrow> registry_ok (run cs w)"
  by (induction cs arbitrary: w) (simp_all add: registry_ok_exec)

text \<open>
  C1: two calls of \<open>Register\<close> with the same module name, one after the other, return the
  same handle, and the second call changes nothing: the state after it (registry, heap of
  handles, extractor maps, output) is the state after the first call, whatever the second
  options are. When the name was not registered before the first call, the handle's logger
  has the output, level and source flag of the first options (the defaults when they are
  nil), its extractor map is theirs, and its name is the normalised module name.
\<close>

theorem Register_twice_same_handle:
  "(let (h1, w1) = Register name o1 w; (h2, w2) = Register name o2 w1
    in h2 = h1 \<and> w2 = w1
       \<and> (\<exists>a. h1 = Some a \<and> moduleLoggers w2 (getModuleName name) = Some a)
       \<and> (moduleLoggers w (getModuleName name) = None \<longrightarrow>
            (let (opts, ms) = (case o1 of None \<Rightarrow> defaultOptions (maps w) | Some p \<Rightarrow> (p, maps w))
             in h2 = Some (length (heap w)) \<and> length (heap w2) = Suc (length (heap w))
                  \<and> maps w2 = ms
                  \<and> heap w2 ! length (heap w) =
                      \<lparr>Logger = Some \<lparr>handler_w = outputW opts, handler_AddSource = addSource opts,
                                       handler_Level = level opts,
                                       attrs = [(''module'', getModuleName name)]\<rparr>,
                       moduleName = getModuleName name,
                       lx_contextExtractors = contextExtractors opts\<rparr>)))"
proof -
  obtain h1 w1 where r1: "Register name o1 w = (h1, w1)" by (cases "Register name o1 w")
  have r2: "Register name o2 w1 = (h1, w1)" using r1 by (rule Register_again)
  from Register_result [of name o1 w] r1
  have reg: "\<exists>a. h1 = Some a \<and> moduleLoggers w1 (getModuleName name) = Some a" by simp
  have cfg: "moduleLoggers w (getModuleName name) = None \<longrightarrow>
            (let (opts, ms) = (case o1 of None \<Rightarrow> defaultOptions (maps w) | Some p \<Rightarrow> (p, maps w))
             in h1 = Some (length (heap w)) \<and> length (heap w1) = Suc (length (heap w))
                  \<and> maps w1 = ms
                  \<and> heap w1 ! length (heap w) =
                      \<lparr>Logger = Some \<lparr>handler_w = outputW opts, handler_AddSource = addSource opts,
                                       handler_Level = level opts,
                                       attrs = [(''module'', getModuleName name)]\<rparr>,
                       moduleName = getModuleName name,
                       lx_contextExtractors = contextExtractors opts\<rparr>)"
  proof
    assume fresh: "moduleLoggers w (getModuleName name) = None"
    show "let (opts, ms) = (case o1 of None \<Rightarrow> defaultOptions (maps w) | Some p \<Rightarrow> (p, maps w))
             in h1 = Some (length (heap w)) \<and> length (heap w1) = Suc (length (heap w))
                  \<and> maps w1 = ms
                  \<and> heap w1 ! length (heap w) =
                      \<lparr>Logger = Some \<lparr>handler_w = outputW opts, handler_AddSource = addSource opts,
                                       handler_Level = level opts,
                                       attrs = [(''module'', getModuleName name)]\<rparr>,
                       moduleName = getModuleName name,
                       lx_contextExtractors = contextExtractors opts\<rparr>"
      using r1 unfolding Register_fresh_eq [OF fresh] Let_def
      by (cases "case o1 of None \<Rightarrow> defaultOptions (maps w) | Some p \<Rightarrow> (p, maps w)") auto
  qed
  from reg cfg show ?thesis by (simp add: r1 r2)
qed

theorem Register_twice_same_handle_witness:
  "(let (h1, w1) = Register ''db'' (Some \<lparr>level = LevelWarn, addSource = False,
                                          outputW = Some (Sink 1), contextExtractors = None\<rparr>)
                     (init_world :: (unit, nat) world);
        (h2, w2) = Register ''db'' (Some \<lparr>level = LevelDebug, addSource = True,
                                          outputW = Some (Sink 2), contextExtractors = None\<rparr>) w1
    in h1 = Some 0 \<and> h2 = Some 0 \<and> w2 = w1 \<and> length (heap w2) = 1
       \<and> map_option handler_w (Logger (heap w2 ! 0)) = Some (Some (Sink 1))
       \<and> map_option handler_Level (Logger (heap w2 ! 0)) = Some LevelWarn)"
  using Register_twice_same_handle [where name = "''db''"
      and ?o1.0 = "Some \<lparr>level = LevelWarn, addSource = False,
                          outputW = Some (Sink 1), contextExtractors = None\<rparr>"
      and ?o2.0 = "Some \<lparr>level = LevelDebug, addSource = True,
                          outputW = Some (Sink 2), contextExtractors = None\<rparr>"
      and w = "init_world :: (unit, nat) world"]
  by (auto simp: Let_def init_world_def split: prod.splits)

text \<open>
  C4: the empty module name is normalised to \<open>default\<close> before the registry is read or a
  handle is built, so \<open>Register\<close> of the empty name is \<open>Register\<close> of \<open>default\<close>: the two
  calls, in either order, return one handle and the second changes nothing. In every run
  of the process from its initial state that handle is named \<open>default\<close>, and no handle in
  the heap has an empty module name.
\<close>

theorem Register_empty_name_is_default:
  "Register [] options w = Register ''default'' options w
   \<and> (let (h1, w1) = Register [] o1 w; (h2, w2) = Register ''default'' o2 w1
      in h2 = h1 \<and> w2 = w1)
   \<and> (let (h1, w1) = Register ''default'' o1 w; (h2, w2) = Register [] o2 w1
      in h2 = h1 \<and> w2 = w1)
   \<and> (let (h, w1) = Register [] options (run calls init_world)
      in \<exists>a. h = Some a \<and> a < length (heap w1) \<and> moduleName (heap w1 ! a) = ''default'')
   \<and> (\<forall>a < length (heap (run calls init_world)).
         moduleName (heap (run calls init_world) ! a) \<noteq> [])"
proof -
  have same: "\<And>opts v. Register [] opts v = Register ''default'' opts v"
    by (simp add: Register_def getModuleName_empty)
  have a: "let (h1, w1) = Register [] o1 w; (h2, w2) = Register ''default'' o2 w1
      in h2 = h1 \<and> w2 = w1"
  proof -
    obtain h1 w1 where r: "Register ''default'' o1 w = (h1, w1)"
      by (cases "Register ''default'' o1 w")
    from Register_again [OF r, of o2] show ?thesis by (simp add: r same)
  qed
  have b: "let (h1, w1) = Register ''default'' o1 w; (h2, w2) = Register [] o2 w1
      in h2 = h1 \<and> w2 = w1"
  proof -
    obtain h1 w1 where r: "Register ''default'' o1 w = (h1, w1)"
      by (cases "Register ''default'' o1 w")
    from Register_again [OF r, of o2] show ?thesis by (simp add: r same)
  qed
  let ?w0 = "run calls init_world"
  have ok0: "registry_ok ?w0"
    using registry_ok_init by (rule registry_ok_run)
  have c: "let (h, w1) = Register [] options ?w0
      in \<exists>a. h = Some a \<and> a < length (heap w1) \<and> moduleName (heap w1 ! a) = ''default''"
  proof -
    obtain h w1 where r: "Register [] options ?w0 = (h, w1)" by (cases "Register [] options ?w0")
    from registry_ok_Register [OF ok0, of "[]" options] r have ok1: "registry_ok w1" by simp
    from Register_result [of "[]" options ?w0] r obtain a where
      h: "h = Some a" and m: "moduleLoggers w1 (getModuleName []) = Some a" by auto
    from ok1 m have "a < length (heap w1) \<and> moduleName (heap w1 ! a) = getModuleName []"
      unfolding registry_ok_def by blast
    with h show ?thesis
      by (simp add: r getModuleName_def defaultModuleName_def)
  qed
  have d: "\<forall>a < length (heap ?w0). moduleName (heap ?w0 ! a) \<noteq> []"
    using ok0 unfolding registry_ok_def by blast
  from same [of options w] a b c d show ?thesis by blast
qed

theorem Register_empty_name_is_default_witness:
  "(let (h, w1) = Register [] None
        (run [Call_Register ''svc'' None, Call_Default] (init_world :: (unit, nat) world))
    in h = Some 1 \<and> length (heap w1) = 2 \<and> moduleName (heap w1 ! 1) = ''default'')
   \<and> length (heap (run [Call_Register ''svc'' None, Call_Default] (init_world :: (unit, nat) world))) = 2
   \<and> moduleName (heap (run [Call_Register ''svc'' None, Call_Default] (init_world :: (unit, nat) world)) ! 0) \<noteq> []
   \<and> moduleName (heap (run [Call_Register ''svc'' None, Call_Default] (init_world :: (unit, nat) world)) ! 1) \<noteq> []"
proof -
  let ?w0 = "run [Call_Register ''svc'' None, Call_Default] (init_world :: (unit, nat) world)"
  note inst = Register_empty_name_is_default [where calls = "[Call_Register ''svc'' None, Call_Default]"
      and options = None and w = "init_world :: (unit, nat) world" and ?o1.0 = None and ?o2.0 = None]
  have ev: "Register [] None ?w0 = (Some 1, ?w0)" "length (heap ?w0) = 2"
    by (simp_all add: Default_def GetLogger_def Register_def newLogx_def configLogger_def
        defaultOptions_def make_map_def getModuleName_def defaultModuleName_def init_world_def
        Let_def)
  from inst have "let (h, w1) = Register [] None ?w0
      in \<exists>a. h = Some a \<and> a < length (heap w1) \<and> moduleName (heap w1 ! a) = ''default''"
    and all: "\<forall>a < length (heap ?w0). moduleName (heap ?w0 ! a) \<noteq> []"
    by blast+
  then have "\<exists>a. Some (1 :: nat) = Some a \<and> a < length (heap ?w0)
      \<and> moduleName (heap ?w0 ! a) = ''default''"
    by (simp only: ev Let_def prod.case)
  then have m: "moduleName (heap ?w0 ! 1) = ''default''"
    by (metis option.inject)
  have first: "let (h, w1) = Register [] None ?w0
    in h = Some 1 \<and> length (heap w1) = 2 \<and> moduleName (heap w1 ! 1) = ''default''"
    using m by (simp only: ev Let_def prod.case)
  have "0 < length (heap ?w0)" "1 < length (heap ?w0)"
    unfolding ev(2) by simp_all
  with all have "moduleName (heap ?w0 ! 0) \<noteq> []" "moduleName (heap ?w0 ! 1) \<noteq> []"
    by blast+
  with first ev(2) show ?thesis by (intro conjI)
qed

text \<open>
  C5: \<open>Default\<close> is a lazy singleton. With no handle registered as \<open>default\<close> it is
  \<open>Register\<close> of the empty name with nil options: a new handle named \<open>default\<close>, whose logger
  has level Info, the source flag on and the standard output, and whose extractor map is
  new and empty. With a handle registered it returns that handle and builds nothing. Two
  calls in a row return the same handle, and the second changes nothing.
\<close>

theorem Default_lazy_singleton:
  "(moduleLoggers w defaultModuleName = None \<longrightarrow>
      Default w = Register [] None w
      \<and> (let (h, w1) = Default w
         in h = Some (length (heap w)) \<and> length (heap w1) = Suc (length (heap w))
            \<and> heap w1 ! length (heap w) =
                \<lparr>Logger = Some \<lparr>handler_w = Some Stdout, handler_AddSource = True,
                                 handler_Level = LevelInfo, attrs = [(''module'', ''default'')]\<rparr>,
                 moduleName = ''default'', lx_contextExtractors = Some (length (maps w))\<rparr>
            \<and> map_at (maps w1) (Some (length (maps w))) = Map.empty
            \<and> moduleLoggers w1 defaultModuleName = Some (length (heap w))))
   \<and> (\<forall>a. moduleLoggers w defaultModuleName = Some a \<longrightarrow> Default w = (Some a, w))
   \<and> (let (h1, w1) = Default w; (h2, w2) = Default w1 in h1 \<noteq> None \<and> h2 = h1 \<and> w2 = w1)"
proof -
  have n: "getModuleName [] = defaultModuleName" by (simp add: getModuleName_def)
  have a: "moduleLoggers w defaultModuleName = None \<longrightarrow>
      Default w = Register [] None w
      \<and> (let (h, w1) = Default w
         in h = Some (length (heap w)) \<and> length (heap w1) = Suc (length (heap w))
            \<and> heap w1 ! length (heap w) =
                \<lparr>Logger = Some \<lparr>handler_w = Some Stdout, handler_AddSource = True,
                                 handler_Level = LevelInfo, attrs = [(''module'', ''default'')]\<rparr>,
                 moduleName = ''default'', lx_contextExtractors = Some (length (maps w))\<rparr>
            \<and> map_at (maps w1) (Some (length (maps w))) = Map.empty
            \<and> moduleLoggers w1 defaultModuleName = Some (length (heap w)))"
  proof
    assume fresh: "moduleLoggers w defaultModuleName = None"
    then have f: "moduleLoggers w (getModuleName []) = None" by (simp add: n)
    show "Default w = Register [] None w
      \<and> (let (h, w1) = Default w
         in h = Some (length (heap w)) \<and> length (heap w1) = Suc (length (heap w))
            \<and> heap w1 ! length (heap w) =
                \<lparr>Logger = Some \<lparr>handler_w = Some Stdout, handler_AddSource = True,
                                 handler_Level = LevelInfo, attrs = [(''module'', ''default'')]\<rparr>,
                 moduleName = ''default'', lx_contextExtractors = Some (length (maps w))\<rparr>
            \<and> map_at (maps w1) (Some (length (maps w))) = Map.empty
            \<and> moduleLoggers w1 defaultModuleName = Some (length (heap w)))"
      by (simp add: Default_as_Register Register_fresh_eq [OF f] n defaultOptions_def
          make_map_def map_at_def defaultModuleName_def)
  qed
  have b: "\<forall>a. moduleLoggers w defaultModuleName = Some a \<longrightarrow> Default w = (Some a, w)"
    by (simp add: Default_eq)
  have c: "let (h1, w1) = Default w; (h2, w2) = Default w1 in h1 \<noteq> None \<and> h2 = h1 \<and> w2 = w1"
  proof -
    obtain h1 w1 where r: "Register [] None w = (h1, w1)" by (cases "Register [] None w")
    from Register_result [of "[]" None w] r have "h1 \<noteq> None" by auto
    with Register_again [OF r, of None] show ?thesis
      by (simp add: Default_as_Register r)
  qed
  from a b c show ?thesis by blast
qed

theorem Default_lazy_singleton_witness:
  "moduleLoggers (init_world :: (unit, nat) world) defaultModuleName = None
   \<and> (let (h1, w1) = Default (init_world :: (unit, nat) world); (h2, w2) = Default w1
      in h1 = Some 0 \<and> h2 = Some 0 \<and> w2 = w1 \<and> length (heap w1) = 1
         \<and> heap w1 ! 0 =
                \<lparr>Logger = Some \<lparr>handler_w = Some Stdout, handler_AddSource = True,
                                 handler_Level = LevelInfo, attrs = [(''module'', ''default'')]\<rparr>,
                 moduleName = ''default'', lx_contextExtractors = Some 0\<rparr>
         \<and> map_at (maps w1) (Some 0) = Map.empty)"
proof -
  have h: "moduleLoggers (init_world :: (unit, nat) world) defaultModuleName = None"
    by (simp add: init_world_def)
  have z: "length (heap (init_world :: (unit, nat) world)) = 0"
    "length (maps (init_world :: (unit, nat) world)) = 0"
    by (simp_all add: init_world_def)
  from Default_lazy_singleton [where w = "init_world :: (unit, nat) world"] h
  show ?thesis
    by (auto simp: z split: prod.splits)
qed

text \<open>
  C6: \<open>GetLogger\<close> only reads: the state after it is the state before it. For a name with
  no entry in the registry (after normalisation) it returns nil and false. After
  \<open>Register\<close> of a name, and whatever calls follow, it returns true and the handle that
  \<open>Register\<close> returned.
\<close>

theorem GetLogger_pure_read:
  "snd (GetLogger name w) = w
   \<and> (moduleLoggers w (getModuleName name) = None \<longrightarrow> GetLogger name w = ((None, False), w))
   \<and> (let (h, w1) = Register name options w; w2 = run calls w1
      in h \<noteq> None \<and> GetLogger name w2 = ((h, True), w2))"
proof -
  have a: "moduleLoggers w (getModuleName name) = None \<longrightarrow> GetLogger name w = ((None, False), w)"
    by (simp add: GetLogger_def)
  have b: "let (h, w1) = Register name options w; w2 = run calls w1
      in h \<noteq> None \<and> GetLogger name w2 = ((h, True), w2)"
  proof -
    obtain h w1 where r: "Register name options w = (h, w1)" by (cases "Register name options w")
    from Register_result [of name options w] r obtain a where
      h: "h = Some a" and m: "moduleLoggers w1 (getModuleName name) = Some a" by auto
    from run_keeps [OF m, of calls] h show ?thesis
      by (simp add: r GetLogger_def)
  qed
  from GetLogger_snd [of name w] a b show ?thesis by blast
qed

theorem GetLogger_pure_read_witness:
  "moduleLoggers (init_world :: (unit, nat) world) (getModuleName ''non-existing'') = None
   \<and> GetLogger ''non-existing'' (init_world :: (unit, nat) world) = ((None, False), init_world)
   \<and> (let (h, w1) = Register ''test-get'' None (init_world :: (unit, nat) world);
          w2 = run [Call_Register ''other'' None, Call_GetLogger ''non-existing''] w1
      in h = Some 0 \<and> GetLogger ''test-get'' w2 = ((Some 0, True), w2))"
proof -
  have h: "moduleLoggers (init_world :: (unit, nat) world) (getModuleName ''non-existing'') = None"
    by (simp add: init_world_def)
  have r: "fst (Register ''test-get'' None (init_world :: (unit, nat) world)) = Some 0"
    by (simp add: Register_def newLogx_def init_world_def getModuleName_def Let_def
        split: prod.splits)
  from GetLogger_pure_read [where name = "''non-existing''" and w = "init_world :: (unit, nat) world"] h
  have 1: "GetLogger ''non-existing'' (init_world :: (unit, nat) world) = ((None, False), init_world)"
    by blast
  from GetLogger_pure_read [where name = "''test-get''" and w = "init_world :: (unit, nat) world"
      and options = None and calls = "[Call_Register ''other'' None, Call_GetLogger ''non-existing'']"] r
  have 2: "let (h, w1) = Register ''test-get'' None (init_world :: (unit, nat) world);
          w2 = run [Call_Register ''other'' None, Call_GetLogger ''non-existing''] w1
      in h = Some 0 \<and> GetLogger ''test-get'' w2 = ((Some 0, True), w2)"
    by (auto simp: Let_def split: prod.splits)
  from h 1 2 show ?thesis by blast
qed

section \<open>Emission\<close>

lemma extracted_Nil: "extracted ctx ce [] = []"
  by (simp add: extracted_def)

lemma extracted_Cons:
  "extracted ctx ce (key # order) =
     (case ce key of None \<Rightarrow> []
      | Some f \<Rightarrow> (case f ctx of Inl e \<Rightarrow> [] | Inr v \<Rightarrow> [Attr key v])) @ extracted ctx ce order"
  by (simp add: extracted_def)

lemma setValueFromContext_Inr_iff:
  "setValueFromContext ctx ce order args = Inr args' \<longleftrightarrow>
     returns_on ctx ce order \<and> args' = args @ extracted ctx ce order"
proof (induction order arbitrary: args)
  case Nil
  then show ?case by (auto simp: extracted_Nil returns_on_def)
next
  case (Cons key order)
  show ?case
  proof (cases "ce key")
    case None
    with Cons.IH [of args] show ?thesis
      by (simp add: extracted_Cons returns_on_def)
  next
    case (Some f)
    show ?thesis
    proof (cases "f ctx")
      case (Inl e)
      with Some show ?thesis by (simp add: returns_on_def)
    next
      case (Inr v)
      with Some Cons.IH [of "args @ [slog_String key v]"] show ?thesis
        by (simp add: extracted_Cons returns_on_def slog_String_def)
    qed
  qed
qed

lemma setValueFromContext_returns:
  "returns_on ctx ce order \<Longrightarrow>
   setValueFromContext ctx ce order args = Inr (args @ extracted ctx ce order)"
  by (simp add: setValueFromContext_Inr_iff)

lemma setValueFromContext_Inl:
  "setValueFromContext ctx ce order args = Inl e \<Longrightarrow> \<not> returns_on ctx ce order"
  using setValueFromContext_returns [of ctx ce order args] by auto

lemma extracted_attrs:
  "x \<in> set (extracted ctx ce order) \<Longrightarrow>
     \<exists>key f v. x = Attr key v \<and> key \<in> set order \<and> ce key = Some f \<and> f ctx = Inr v"
proof (induction order)
  case Nil
  then show ?case by (simp add: extracted_Nil)
next
  case (Cons k order)
  show ?case
  proof (cases "x \<in> set (extracted ctx ce order)")
    case True
    from Cons.IH [OF this] show ?thesis by auto
  next
    case False
    show ?thesis
    proof (cases "ce k")
      case None
      with False Cons.prems show ?thesis by (simp add: extracted_Cons)
    next
      case (Some f)
      show ?thesis
      proof (cases "f ctx")
        case (Inl e)
        with Some False Cons.prems show ?thesis by (simp add: extracted_Cons)
      next
        case (Inr v)
        with Some False Cons.prems have "x = Attr k v" by (simp add: extracted_Cons)
        with Some Inr show ?thesis by simp
      qed
    qed
  qed
qed

lemma extracted_all_keys:
  assumes "returns_on ctx ce order" and "set order \<subseteq> dom ce"
  shows "extracted ctx ce order = map (\<lambda>key. Attr key (projr (the (ce key) ctx))) order"
  using assms
  by (induction order)
     (auto simp: extracted_Nil extracted_Cons returns_on_def split: option.splits sum.splits)

lemma extracted_length:
  assumes "returns_on ctx ce order" and "iteration_order ce order"
  shows "length (extracted ctx ce order) = card (dom ce)"
proof -
  from assms(2) have s: "set order \<subseteq> dom ce" and d: "distinct order" and e: "set order = dom ce"
    by (simp_all add: iteration_order_def)
  have "length (extracted ctx ce order) = length order"
    by (simp add: extracted_all_keys [OF assms(1) s])
  also have "\<dots> = card (dom ce)"
    using d e distinct_card by fastforce
  finally show ?thesis .
qed

lemma extracted_has_key:
  assumes "returns_on ctx ce order" and "iteration_order ce order" and "ce key = Some f"
  shows "\<exists>v. f ctx = Inr v \<and> Attr key v \<in> set (extracted ctx ce order)"
proof -
  from assms(2,3) have k: "key \<in> set order" and s: "set order \<subseteq> dom ce"
    by (auto simp: iteration_order_def)
  from assms(1) k have "case ce key of None \<Rightarrow> True
      | Some f \<Rightarrow> (case f ctx of Inl e \<Rightarrow> False | Inr v \<Rightarrow> True)"
    by (simp add: returns_on_def list_all_iff)
  with assms(3) obtain v where v: "f ctx = Inr v"
    by (cases "f ctx") simp_all
  have "Attr key (projr (the (ce key) ctx)) \<in> set (extracted ctx ce order)"
    unfolding extracted_all_keys [OF assms(1) s] using k by simp
  with v assms(3) show ?thesis by simp
qed

lemma emit_at_eq:
  "emit_at s = emit (\<lambda>l (ctx :: 'a). slog_log l (level_of s))"
  by (cases s) (simp_all add: Context_methods level_of_def)

lemma emit_at_handle:
  assumes "a < length (heap w)"
  shows "emit_at s (Some a) ctx order msg args w =
     (case setValueFromContext ctx (map_at (maps w) (lx_contextExtractors (heap w ! a))) order args of
        Inl e \<Rightarrow> Inl e
      | Inr args' \<Rightarrow>
          (case Logger (heap w ! a) of
             None \<Rightarrow> Inl NilPointer
           | Some l \<Rightarrow>
               (case slog_log l (level_of s) msg args' (sinks w) of
                  Inl e \<Rightarrow> Inl e
                | Inr out \<Rightarrow> Inr (w\<lparr>sinks := out\<rparr>))))"
  using assms by (simp add: emit_at_eq emit_def Let_def)

lemma setValueFromContext_Inl_source:
  "setValueFromContext ctx ce order args = Inl e \<Longrightarrow>
     \<exists>key f. key \<in> set order \<and> ce key = Some f \<and> f ctx = Inl e"
proof (induction order arbitrary: args)
  case Nil
  then show ?case by simp
next
  case (Cons k order)
  show ?case
  proof (cases "ce k")
    case None
    with Cons.prems have "setValueFromContext ctx ce order args = Inl e" by simp
    from Cons.IH [OF this] show ?thesis by auto
  next
    case (Some f)
    show ?thesis
    proof (cases "f ctx")
      case (Inl e')
      with Some Cons.prems have "e' = e" by simp
      with Some Inl show ?thesis by auto
    next
      case (Inr v)
      with Some Cons.prems
      have "setValueFromContext ctx ce order (args @ [slog_String k v]) = Inl e" by simp
      from Cons.IH [OF this] show ?thesis by auto
    qed
  qed
qed

lemma setValueFromContext_panics:
  assumes "\<not> returns_on ctx ce order"
  shows "\<exists>e. setValueFromContext ctx ce order args = Inl e"
proof (cases "setValueFromContext ctx ce order args")
  case (Inl e)
  then show ?thesis by blast
next
  case (Inr args')
  with assms show ?thesis by (simp add: setValueFromContext_Inr_iff)
qed

lemma emit_extractor_panic:
  assumes "a < length (heap w)"
    and "setValueFromContext ctx (map_at (maps w) (lx_contextExtractors (heap w ! a))) order args = Inl e"
  shows "emit backend (Some a) ctx order msg args w = Inl e"
  using assms by (simp add: emit_def Let_def)

lemma emission_when_extractor_panics:
  assumes a: "a < length (heap w)"
    and ce: "ce = map_at (maps w) (lx_contextExtractors (heap w ! a))"
    and nret: "\<not> returns_on ctx ce order"
  shows "\<exists>e key f. key \<in> set order \<and> ce key = Some f \<and> f ctx = Inl e
      \<and> InfoContext (Some a) ctx order msg args w = Inl e
      \<and> DebugContext (Some a) ctx order msg args w = Inl e
      \<and> WarnContext (Some a) ctx order msg args w = Inl e
      \<and> ErrorContext (Some a) ctx order msg args w = Inl e
      \<and> (\<forall>backend. emit backend (Some a) ctx order msg args w = Inl e)"
proof -
  from setValueFromContext_panics [OF nret, of args] obtain e where
    sv: "setValueFromContext ctx ce order args = Inl e" by blast
  from setValueFromContext_Inl_source [OF sv] obtain key f where
    src: "key \<in> set order" "ce key = Some f" "f ctx = Inl e" by blast
  have em: "\<And>backend. emit backend (Some a) ctx order msg args w = Inl e"
    using a sv unfolding ce by (rule emit_extractor_panic)
  from src em show ?thesis
    unfolding InfoContext_def DebugContext_def WarnContext_def ErrorContext_def by blast
qed

lemma emission_when_extractors_return:
  assumes w: "w = run calls init_world"
    and a: "a < length (heap w)"
    and ce: "ce = map_at (maps w) (lx_contextExtractors (heap w ! a))"
    and order: "iteration_order ce order"
    and ret: "returns_on ctx ce order"
  shows "\<exists>l. Logger (heap w ! a) = Some l
      \<and> attrs l = [(''module'', moduleName (heap w ! a))]
      \<and> InfoContext (Some a) ctx order msg args w =
          (case slog_InfoContext l ctx msg (args @ extracted ctx ce order) (sinks w) of
             Inl e \<Rightarrow> Inl e | Inr out \<Rightarrow> Inr (w\<lparr>sinks := out\<rparr>))
      \<and> DebugContext (Some a) ctx order msg args w =
          (case slog_DebugContext l ctx msg (args @ extracted ctx ce order) (sinks w) of
             Inl e \<Rightarrow> Inl e | Inr out \<Rightarrow> Inr (w\<lparr>sinks := out\<rparr>))
      \<and> WarnContext (Some a) ctx order msg args w =
          (case slog_WarnContext l ctx msg (args @ extracted ctx ce order) (sinks w) of
             Inl e \<Rightarrow> Inl e | Inr out \<Rightarrow> Inr (w\<lparr>sinks := out\<rparr>))
      \<and> ErrorContext (Some a) ctx order msg args w =
          (case slog_ErrorContext l ctx msg (args @ extracted ctx ce order) (sinks w) of
             Inl e \<Rightarrow> Inl e | Inr out \<Rightarrow> Inr (w\<lparr>sinks := out\<rparr>))
      \<and> (\<forall>s wr. handler_w l = Some wr \<and> handler_Level l \<le> level_of s \<longrightarrow>
            emit_at s (Some a) ctx order msg args w =
              Inr (w\<lparr>sinks := (sinks w)(wr := sinks w wr @
                [\<lparr>r_level = level_of s, r_source = handler_AddSource l, r_msg = msg,
                  r_attrs = [(''module'', moduleName (heap w ! a))],
                  r_args = args @ extracted ctx ce order\<rparr>])\<rparr>))
      \<and> length (extracted ctx ce order :: 'v any list) = card (dom ce)
      \<and> (\<forall>key f. ce key = Some f \<longrightarrow>
            (\<exists>v. f ctx = Inr v \<and> Attr key v \<in> set (extracted ctx ce order :: 'v any list)))
      \<and> (\<forall>x \<in> set (extracted ctx ce order :: 'v any list).
            \<exists>key f v. x = Attr key v \<and> ce key = Some f \<and> f ctx = Inr v)"
proof -
  have "registry_ok w"
    unfolding w using registry_ok_init by (rule registry_ok_run)
  with a obtain l where l: "Logger (heap w ! a) = Some l"
    and m: "attrs l = [(''module'', moduleName (heap w ! a))]"
    unfolding registry_ok_def by blast
  have sv: "setValueFromContext ctx (map_at (maps w) (lx_contextExtractors (heap w ! a))) order args
      = Inr (args @ extracted ctx ce order)"
    using ret unfolding ce by (rule setValueFromContext_returns)
  note e = emit_handle [OF a l sv]
  have wr: "\<forall>s wr. handler_w l = Some wr \<and> handler_Level l \<le> level_of s \<longrightarrow>
            emit_at s (Some a) ctx order msg args w =
              Inr (w\<lparr>sinks := (sinks w)(wr := sinks w wr @
                [\<lparr>r_level = level_of s, r_source = handler_AddSource l, r_msg = msg,
                  r_attrs = [(''module'', moduleName (heap w ! a))],
                  r_args = args @ extracted ctx ce order\<rparr>])\<rparr>)"
    by (simp add: emit_at_eq e slog_log_def slog_record_def m)
  have len: "length (extracted ctx ce order :: 'v any list) = card (dom ce)"
    using ret order by (rule extracted_length)
  have each: "\<forall>key f. ce key = Some f \<longrightarrow>
            (\<exists>v. f ctx = Inr v \<and> Attr key v \<in> set (extracted ctx ce order :: 'v any list))"
    using extracted_has_key [OF ret order] by blast
  have only: "\<forall>x \<in> set (extracted ctx ce order :: 'v any list).
            \<exists>key f v. x = Attr key v \<and> ce key = Some f \<and> f ctx = Inr v"
    using extracted_attrs by fast
  show ?thesis
    apply (rule exI [of _ l])
    apply (intro conjI)
            apply (rule l)
           apply (rule m)
          apply (simp only: InfoContext_def e)
         apply (simp only: DebugContext_def e)
        apply (simp only: WarnContext_def e)
       apply (simp only: ErrorContext_def e)
      apply (rule wr)
     apply (rule len)
    apply (rule each)
    apply (rule only)
    done
qed

text \<open>
  C3, as amended: for a handle of a run of the process, when every registered extractor
  returns on the supplied context (none panics, none is nil), each of \<open>InfoContext\<close>,
  \<open>DebugContext\<close>, \<open>WarnContext\<close> and \<open>ErrorContext\<close> calls the backend method of its
  severity on the handle's logger with the message and the caller's arguments followed by
  one string attribute per registered extractor, named after its key and holding its
  result; the logger carries the attribute \<open>module\<close> with the handle's module name, and the
  record the backend writes when the level lets it through has that attribute. When an
  extractor does not return, each of the four methods panics with the panic of a registered
  extractor, and the backend is not reached: the result is that panic whatever the backend
  method is.
\<close>

theorem emission_forwards_extracted:
  assumes w: "w = run calls init_world"
    and a: "a < length (heap w)"
    and ce: "ce = map_at (maps w) (lx_contextExtractors (heap w ! a))"
    and order: "iteration_order ce order"
  shows "(returns_on ctx ce order \<longrightarrow>
      (\<exists>l. Logger (heap w ! a) = Some l
      \<and> attrs l = [(''module'', moduleName (heap w ! a))]
      \<and> InfoContext (Some a) ctx order msg args w =
          (case slog_InfoContext l ctx msg (args @ extracted ctx ce order) (sinks w) of
             Inl e \<Rightarrow> Inl e | Inr out \<Rightarrow> Inr (w\<lparr>sinks := out\<rparr>))
      \<and> DebugContext (Some a) ctx order msg args w =
          (case slog_DebugContext l ctx msg (args @ extracted ctx ce order) (sinks w) of
             Inl e \<Rightarrow> Inl e | Inr out \<Rightarrow> Inr (w\<lparr>sinks := out\<rparr>))
      \<and> WarnContext (Some a) ctx order msg args w =
          (case slog_WarnContext l ctx msg (args @ extracted ctx ce order) (sinks w) of
             Inl e \<Rightarrow> Inl e | Inr out \<Rightarrow> Inr (w\<lparr>sinks := out\<rparr>))
      \<and> ErrorContext (Some a) ctx order msg args w =
          (case slog_ErrorContext l ctx msg (args @ extracted ctx ce order) (sinks w) of
             Inl e \<Rightarrow> Inl e | Inr out \<Rightarrow> Inr (w\<lparr>sinks := out\<rparr>))
      \<and> (\<forall>s wr. handler_w l = Some wr \<and> handler_Level l \<le> level_of s \<longrightarrow>
            emit_at s (Some a) ctx order msg args w =
              Inr (w\<lparr>sinks := (sinks w)(wr := sinks w wr @
                [\<lparr>r_level = level_of s, r_source = handler_AddSource l, r_msg = msg,
                  r_attrs = [(''module'', moduleName (heap w ! a))],
                  r_args = args @ extracted ctx ce order\<rparr>])\<rparr>))
      \<and> length (extracted ctx ce order :: 'v any list) = card (dom ce)
      \<and> (\<forall>key f. ce key = Some f \<longrightarrow>
            (\<exists>v. f ctx = Inr v \<and> Attr key v \<in> set (extracted ctx ce order :: 'v any list)))
      \<and> (\<forall>x \<in> set (extracted ctx ce order :: 'v any list).
            \<exists>key f v. x = Attr key v \<and> ce key = Some f \<and> f ctx = Inr v)))
    \<and> (\<not> returns_on ctx ce order \<longrightarrow>
      (\<exists>e key f. key \<in> set order \<and> ce key = Some f \<and> f ctx = Inl e
        \<and> InfoContext (Some a) ctx order msg args w = Inl e
        \<and> DebugContext (Some a) ctx order msg args w = Inl e
        \<and> WarnContext (Some a) ctx order msg args w = Inl e
        \<and> ErrorContext (Some a) ctx order msg args w = Inl e
        \<and> (\<forall>backend. emit backend (Some a) ctx order msg args w = Inl e)))"
  (is "(?ret \<longrightarrow> ?forwards) \<and> (\<not> ?ret \<longrightarrow> ?panics)")
proof (rule conjI)
  show "?ret \<longrightarrow> ?forwards"
  proof (rule impI)
    assume ?ret
    with w a ce order show ?forwards
      by (rule emission_when_extractors_return)
  qed
next
  show "\<not> ?ret \<longrightarrow> ?panics"
  proof (rule impI)
    assume "\<not> ?ret"
    with a ce show ?panics
      by (rule emission_when_extractor_panics)
  qed
qed

theorem emission_forwards_extracted_witness:
  "(let w = run [Call_NewOptions [WithLevel LevelDebug,
                   WithContextExtractor ''request_id''
                     (\<lambda>ctx :: string \<rightharpoonup> string. Inr (case ctx ''request_id'' of None \<Rightarrow> [] | Some v \<Rightarrow> v)),
                   WithOutput (Some (Sink 1))],
                 Call_Register ''test-context''
                   (Some \<lparr>level = LevelDebug, addSource = True, outputW = Some (Sink 1),
                          contextExtractors = Some 0\<rparr>)]
             (init_world :: (string \<rightharpoonup> string, nat) world)
    in length (heap w) = 1
       \<and> iteration_order (map_at (maps w) (lx_contextExtractors (heap w ! 0))) [''request_id'']
       \<and> returns_on [''request_id'' \<mapsto> ''test-123'']
            (map_at (maps w) (lx_contextExtractors (heap w ! 0))) [''request_id'']
       \<and> InfoContext (Some 0) [''request_id'' \<mapsto> ''test-123''] [''request_id'']
            ''test message'' [] w =
          Inr (w\<lparr>sinks := (sinks w)(Sink 1 :=
                [\<lparr>r_level = LevelInfo, r_source = True, r_msg = ''test message'',
                  r_attrs = [(''module'', ''test-context'')],
                  r_args = [Attr ''request_id'' ''test-123'']\<rparr>])\<rparr>))
   \<and> (let w = run [Call_NewOptions [WithContextExtractor ''k'' nil_extractor],
                   Call_Register ''m''
                     (Some \<lparr>level = LevelInfo, addSource = True, outputW = Some Stdout,
                            contextExtractors = Some 0\<rparr>)]
               (init_world :: (unit, nat) world)
      in length (heap w) = 1
         \<and> iteration_order (map_at (maps w) (lx_contextExtractors (heap w ! 0))) [''k'']
         \<and> \<not> returns_on () (map_at (maps w) (lx_contextExtractors (heap w ! 0))) [''k'']
         \<and> ErrorContext (Some 0) () [''k''] ''msg'' [Val 1] w = Inl NilPointer
         \<and> emit (\<lambda>l ctx msg args out. Inr out) (Some 0) () [''k''] ''msg'' [Val 1] w
             = Inl NilPointer)"
proof -
  let ?ex = "\<lambda>ctx :: string \<rightharpoonup> string. Inr (case ctx ''request_id'' of None \<Rightarrow> [] | Some v \<Rightarrow> v) :: error + string"
  let ?calls = "[Call_NewOptions [WithLevel LevelDebug, WithContextExtractor ''request_id'' ?ex,
                   WithOutput (Some (Sink 1))],
                 Call_Register ''test-context''
                   (Some \<lparr>level = LevelDebug, addSource = True, outputW = Some (Sink 1),
                          contextExtractors = Some 0\<rparr>)]
                :: (string \<rightharpoonup> string, nat) call list"
  define w where "w = run ?calls init_world"
  let ?ctx = "[''request_id'' \<mapsto> ''test-123'']"
  let ?l = "\<lparr>handler_w = Some (Sink 1), handler_AddSource = True, handler_Level = LevelDebug,
             attrs = [(''module'', ''test-context'')]\<rparr>"
  have ev: "w = \<lparr>moduleLoggers = [''test-context'' \<mapsto> 0],
                  heap = [\<lparr>Logger = Some ?l, moduleName = ''test-context'',
                           lx_contextExtractors = Some 0\<rparr>],
                  maps = [[''request_id'' \<mapsto> ?ex]], sinks = (\<lambda>_. [])\<rparr>"
    unfolding w_def
    by (simp add: NewOptions_def defaultOptions_def make_map_def WithLevel_def
        WithContextExtractor_def WithOutput_def Register_def newLogx_def configLogger_def
        slog_New_JSONHandler_def slog_With_def getModuleName_def init_world_def Let_def)
  have a: "0 < length (heap w)" unfolding ev by simp
  have ce: "map_at (maps w) (lx_contextExtractors (heap w ! 0)) = [''request_id'' \<mapsto> ?ex]"
    unfolding ev by (simp add: map_at_def)
  have order: "iteration_order (map_at (maps w) (lx_contextExtractors (heap w ! 0))) [''request_id'']"
    unfolding ce by (simp add: iteration_order_def)
  have ret: "returns_on ?ctx (map_at (maps w) (lx_contextExtractors (heap w ! 0))) [''request_id'']"
    unfolding ce by (simp add: returns_on_def)
  from emission_forwards_extracted [OF w_def a refl order, where ctx = ?ctx
      and msg = "''test message''" and args = "[]"] ret
  obtain l where l: "Logger (heap w ! 0) = Some l"
    and wr: "\<forall>s wr. handler_w l = Some wr \<and> handler_Level l \<le> level_of s \<longrightarrow>
            emit_at s (Some 0) ?ctx [''request_id''] ''test message'' [] w =
              Inr (w\<lparr>sinks := (sinks w)(wr := sinks w wr @
                [\<lparr>r_level = level_of s, r_source = handler_AddSource l, r_msg = ''test message'',
                  r_attrs = [(''module'', moduleName (heap w ! 0))],
                  r_args = [] @ extracted ?ctx (map_at (maps w) (lx_contextExtractors (heap w ! 0))) [''request_id'']\<rparr>])\<rparr>)"
    by blast
  from l have l': "l = ?l" unfolding ev by simp
  have "handler_w l = Some (Sink 1) \<and> handler_Level l \<le> level_of Info"
    unfolding l' by (simp add: level_of_def LevelDebug_def LevelInfo_def)
  with wr have "emit_at Info (Some 0) ?ctx [''request_id''] ''test message'' [] w =
              Inr (w\<lparr>sinks := (sinks w)(Sink 1 := sinks w (Sink 1) @
                [\<lparr>r_level = level_of Info, r_source = handler_AddSource l, r_msg = ''test message'',
                  r_attrs = [(''module'', moduleName (heap w ! 0))],
                  r_args = [] @ extracted ?ctx (map_at (maps w) (lx_contextExtractors (heap w ! 0))) [''request_id'']\<rparr>])\<rparr>)"
    by blast
  then have em: "InfoContext (Some 0) ?ctx [''request_id''] ''test message'' [] w =
          Inr (w\<lparr>sinks := (sinks w)(Sink 1 :=
                [\<lparr>r_level = LevelInfo, r_source = True, r_msg = ''test message'',
                  r_attrs = [(''module'', ''test-context'')],
                  r_args = [Attr ''request_id'' ''test-123'']\<rparr>])\<rparr>)"
    unfolding ce l' by (simp add: ev level_of_def extracted_def)
  have len: "length (heap w) = 1" unfolding ev by simp
  from len order ret em have returns: "let w = run ?calls init_world
    in length (heap w) = 1
       \<and> iteration_order (map_at (maps w) (lx_contextExtractors (heap w ! 0))) [''request_id'']
       \<and> returns_on ?ctx (map_at (maps w) (lx_contextExtractors (heap w ! 0))) [''request_id'']
       \<and> InfoContext (Some 0) ?ctx [''request_id''] ''test message'' [] w =
          Inr (w\<lparr>sinks := (sinks w)(Sink 1 :=
                [\<lparr>r_level = LevelInfo, r_source = True, r_msg = ''test message'',
                  r_attrs = [(''module'', ''test-context'')],
                  r_args = [Attr ''request_id'' ''test-123'']\<rparr>])\<rparr>)"
    unfolding Let_def w_def [symmetric] by (intro conjI)
  let ?calls2 = "[Call_NewOptions [WithContextExtractor ''k'' nil_extractor],
                  Call_Register ''m''
                    (Some \<lparr>level = LevelInfo, addSource = True, outputW = Some Stdout,
                           contextExtractors = Some 0\<rparr>)]
                 :: (unit, nat) call list"
  define v where "v = run ?calls2 init_world"
  have ev2: "heap v = [\<lparr>Logger = Some \<lparr>handler_w = Some Stdout, handler_AddSource = True,
                                         handler_Level = LevelInfo, attrs = [(''module'', ''m'')]\<rparr>,
                         moduleName = ''m'', lx_contextExtractors = Some 0\<rparr>]"
    "maps v = [[''k'' \<mapsto> nil_extractor]]"
    unfolding v_def
    by (simp_all add: NewOptions_def defaultOptions_def make_map_def
        WithContextExtractor_def Register_def newLogx_def configLogger_def
        slog_New_JSONHandler_def slog_With_def getModuleName_def init_world_def Let_def)
  have a2: "0 < length (heap v)" unfolding ev2 by simp
  have ce2: "map_at (maps v) (lx_contextExtractors (heap v ! 0)) = [''k'' \<mapsto> nil_extractor]"
    unfolding ev2 by (simp add: map_at_def)
  have order2: "iteration_order (map_at (maps v) (lx_contextExtractors (heap v ! 0))) [''k'']"
    unfolding ce2 by (simp add: iteration_order_def)
  have nret: "\<not> returns_on () (map_at (maps v) (lx_contextExtractors (heap v ! 0))) [''k'']"
    unfolding ce2 by (simp add: returns_on_def nil_extractor_def)
  from emission_forwards_extracted [OF v_def a2 refl order2, where ctx = "()"
      and msg = "''msg''" and args = "[Val 1]"] nret
  obtain e key f where src: "key \<in> set [''k'']"
      "map_at (maps v) (lx_contextExtractors (heap v ! 0)) key = Some f" "f () = Inl e"
    and err: "ErrorContext (Some 0) () [''k''] ''msg'' [Val 1] v = Inl e"
    and any: "\<forall>backend. emit backend (Some 0) () [''k''] ''msg'' [Val 1] v = Inl e"
    by blast
  from src have e: "e = NilPointer"
    unfolding ce2 by (simp add: nil_extractor_def)
  have len2: "length (heap v) = 1" unfolding ev2 by simp
  from err have err': "ErrorContext (Some 0) () [''k''] ''msg'' [Val 1] v = Inl NilPointer"
    unfolding e .
  from any have any': "emit (\<lambda>l ctx msg args out. Inr out) (Some 0) () [''k''] ''msg'' [Val 1] v
      = Inl NilPointer"
    unfolding e by blast
  from len2 order2 nret err' any' have panics: "let w = run ?calls2 init_world
      in length (heap w) = 1
         \<and> iteration_order (map_at (maps w) (lx_contextExtractors (heap w ! 0))) [''k'']
         \<and> \<not> returns_on () (map_at (maps w) (lx_contextExtractors (heap w ! 0))) [''k'']
         \<and> ErrorContext (Some 0) () [''k''] ''msg'' [Val 1] w = Inl NilPointer
         \<and> emit (\<lambda>l ctx msg args out. Inr out) (Some 0) () [''k''] ''msg'' [Val 1] w
             = Inl NilPointer"
    unfolding Let_def v_def [symmetric] by (intro conjI)
  from returns panics show ?thesis by (rule conjI)
qed

text \<open>
  C3 as stated fails when a registered extractor does not return: options built with the
  nil function as extractor are accepted, the handle is registered, and \<open>InfoContext\<close> on it
  panics at the call of the extractor, before the backend is reached.
\<close>

theorem emission_panics_counterexample:
  "NewOptions [WithContextExtractor ''k'' nil_extractor] (maps (init_world :: (unit, nat) world))
     = Inr (\<lparr>level = LevelInfo, addSource = True, outputW = Some Stdout, contextExtractors = Some 0\<rparr>,
            [[''k'' \<mapsto> nil_extractor]])
   \<and> fst (Register ''m''
            (Some \<lparr>level = LevelInfo, addSource = True, outputW = Some Stdout, contextExtractors = Some 0\<rparr>)
            ((init_world :: (unit, nat) world)\<lparr>maps := [[''k'' \<mapsto> nil_extractor]]\<rparr>)) = Some 0
   \<and> InfoContext (Some 0) () [''k''] ''msg'' []
        (snd (Register ''m''
            (Some \<lparr>level = LevelInfo, addSource = True, outputW = Some Stdout, contextExtractors = Some 0\<rparr>)
            ((init_world :: (unit, nat) world)\<lparr>maps := [[''k'' \<mapsto> nil_extractor]]\<rparr>)))
      = Inl NilPointer"
  by (simp add: NewOptions_def defaultOptions_def make_map_def WithContextExtractor_def
      Register_def newLogx_def configLogger_def getModuleName_def init_world_def Let_def
      InfoContext_def emit_def map_at_def nil_extractor_def)

lemma emit_Some:
  assumes "a < length (heap w)"
  shows "emit backend (Some a) ctx order msg args w =
     (case setValueFromContext ctx (map_at (maps w) (lx_contextExtractors (heap w ! a))) order args of
        Inl e \<Rightarrow> Inl e
      | Inr args' \<Rightarrow>
          (case Logger (heap w ! a) of
             None \<Rightarrow> Inl NilPointer
           | Some l \<Rightarrow>
               (case backend l ctx msg args' (sinks w) of
                  Inl e \<Rightarrow> Inl e
                | Inr out \<Rightarrow> Inr (w\<lparr>sinks := out\<rparr>))))"
  using assms by (simp add: emit_def Let_def)

text \<open>
  C10: in every emission call the arguments handed to the backend are the caller's
  arguments, all of them and in their order, followed by the attributes of the extractors:
  the loop over the extractors only appends. When an extractor panics nothing is handed to
  the backend. With \<open>n\<close> extractors registered the list is longer by \<open>n\<close>.
\<close>

theorem extractor_pairs_follow_caller_args:
  "(case setValueFromContext ctx ce order args of
      Inl e \<Rightarrow> \<not> returns_on ctx ce order
    | Inr args' \<Rightarrow>
        take (length args) args' = args
        \<and> drop (length args) args' = extracted ctx ce order
        \<and> (\<forall>x \<in> set (drop (length args) args').
              \<exists>key f v. x = Attr key v \<and> key \<in> set order \<and> ce key = Some f \<and> f ctx = Inr v)
        \<and> (iteration_order ce order \<longrightarrow> length args' = length args + card (dom ce)))
   \<and> (a < length (heap w) \<and> ce = map_at (maps w) (lx_contextExtractors (heap w ! a)) \<longrightarrow>
        InfoContext (Some a) ctx order msg args w =
          (case setValueFromContext ctx ce order args of
             Inl e \<Rightarrow> Inl e
           | Inr args' \<Rightarrow>
               (case Logger (heap w ! a) of
                  None \<Rightarrow> Inl NilPointer
                | Some l \<Rightarrow>
                    (case slog_InfoContext l ctx msg args' (sinks w) of
                       Inl e \<Rightarrow> Inl e | Inr out \<Rightarrow> Inr (w\<lparr>sinks := out\<rparr>))))
        \<and> DebugContext (Some a) ctx order msg args w =
          (case setValueFromContext ctx ce order args of
             Inl e \<Rightarrow> Inl e
           | Inr args' \<Rightarrow>
               (case Logger (heap w ! a) of
                  None \<Rightarrow> Inl NilPointer
                | Some l \<Rightarrow>
                    (case slog_DebugContext l ctx msg args' (sinks w) of
                       Inl e \<Rightarrow> Inl e | Inr out \<Rightarrow> Inr (w\<lparr>sinks := out\<rparr>))))
        \<and> WarnContext (Some a) ctx order msg args w =
          (case setValueFromContext ctx ce order args of
             Inl e \<Rightarrow> Inl e
           | Inr args' \<Rightarrow>
               (case Logger (heap w ! a) of
                  None \<Rightarrow> Inl NilPointer
                | Some l \<Rightarrow>
                    (case slog_WarnContext l ctx msg args' (sinks w) of
                       Inl e \<Rightarrow> Inl e | Inr out \<Rightarrow> Inr (w\<lparr>sinks := out\<rparr>))))
        \<and> ErrorContext (Some a) ctx order msg args w =
          (case setValueFromContext ctx ce order args of
             Inl e \<Rightarrow> Inl e
           | Inr args' \<Rightarrow>
               (case Logger (heap w ! a) of
                  None \<Rightarrow> Inl NilPointer
                | Some l \<Rightarrow>
                    (case slog_ErrorContext l ctx msg args' (sinks w) of
                       Inl e \<Rightarrow> Inl e | Inr out \<Rightarrow> Inr (w\<lparr>sinks := out\<rparr>)))))"
proof -
  have first: "case setValueFromContext ctx ce order args of
      Inl e \<Rightarrow> \<not> returns_on ctx ce order
    | Inr args' \<Rightarrow>
        take (length args) args' = args
        \<and> drop (length args) args' = extracted ctx ce order
        \<and> (\<forall>x \<in> set (drop (length args) args').
              \<exists>key f v. x = Attr key v \<and> key \<in> set order \<and> ce key = Some f \<and> f ctx = Inr v)
        \<and> (iteration_order ce order \<longrightarrow> length args' = length args + card (dom ce))"
  proof (cases "setValueFromContext ctx ce order args")
    case (Inl e)
    then show ?thesis by (simp add: setValueFromContext_Inl)
  next
    case (Inr args')
    then have ret: "returns_on ctx ce order" and eq: "args' = args @ extracted ctx ce order"
      by (simp_all add: setValueFromContext_Inr_iff)
    show ?thesis
      unfolding Inr eq sum.case
      by (auto dest: extracted_attrs simp: extracted_length [OF ret])
  qed
  have second: "a < length (heap w) \<and> ce = map_at (maps w) (lx_contextExtractors (heap w ! a)) \<longrightarrow>
        InfoContext (Some a) ctx order msg args w =
          (case setValueFromContext ctx ce order args of
             Inl e \<Rightarrow> Inl e
           | Inr args' \<Rightarrow>
               (case Logger (heap w ! a) of
                  None \<Rightarrow> Inl NilPointer
                | Some l \<Rightarrow>
                    (case slog_InfoContext l ctx msg args' (sinks w) of
                       Inl e \<Rightarrow> Inl e | Inr out \<Rightarrow> Inr (w\<lparr>sinks := out\<rparr>))))
        \<and> DebugContext (Some a) ctx order msg args w =
          (case setValueFromContext ctx ce order args of
             Inl e \<Rightarrow> Inl e
           | Inr args' \<Rightarrow>
               (case Logger (heap w ! a) of
                  None \<Rightarrow> Inl NilPointer
                | Some l \<Rightarrow>
                    (case slog_DebugContext l ctx msg args' (sinks w) of
                       Inl e \<Rightarrow> Inl e | Inr out \<Rightarrow> Inr (w\<lparr>sinks := out\<rparr>))))
        \<and> WarnContext (Some a) ctx order msg args w =
          (case setValueFromContext ctx ce order args of
             Inl e \<Rightarrow> Inl e
           | Inr args' \<Rightarrow>
               (case Logger (heap w ! a) of
                  None \<Rightarrow> Inl NilPointer
                | Some l \<Rightarrow>
                    (case slog_WarnContext l ctx msg args' (sinks w) of
                       Inl e \<Rightarrow> Inl e | Inr out \<Rightarrow> Inr (w\<lparr>sinks := out\<rparr>))))
        \<and> ErrorContext (Some a) ctx order msg args w =
          (case setValueFromContext ctx ce order args of
             Inl e \<Rightarrow> Inl e
           | Inr args' \<Rightarrow>
               (case Logger (heap w ! a) of
                  None \<Rightarrow> Inl NilPointer
                | Some l \<Rightarrow>
                    (case slog_ErrorContext l ctx msg args' (sinks w) of
                       Inl e \<Rightarrow> Inl e | Inr out \<Rightarrow> Inr (w\<lparr>sinks := out\<rparr>))))"
    by (simp add: InfoContext_def DebugContext_def WarnContext_def ErrorContext_def emit_Some)
  from first second show ?thesis by (rule conjI)
qed

theorem extractor_pairs_follow_caller_args_witness:
  "(let w = run [Call_NewOptions [WithContextExtractor ''rid'' (\<lambda>_ :: unit. Inr ''42''),
                                  WithContextExtractor ''uid'' (\<lambda>_. Inr ''7'')],
                 Call_Register ''svc''
                   (Some \<lparr>level = LevelInfo, addSource = True, outputW = Some Stdout,
                          contextExtractors = Some 0\<rparr>)]
             (init_world :: (unit, nat) world)
    in 0 < length (heap w)
       \<and> iteration_order (map_at (maps w) (lx_contextExtractors (heap w ! 0))) [''uid'', ''rid'']
       \<and> setValueFromContext () (map_at (maps w) (lx_contextExtractors (heap w ! 0)))
            [''uid'', ''rid''] [Val (1 :: nat), Attr ''k'' ''v'', Val 2]
          = Inr [Val 1, Attr ''k'' ''v'', Val 2, Attr ''uid'' ''7'', Attr ''rid'' ''42'']
       \<and> take (length [Val (1 :: nat), Attr ''k'' ''v'', Val 2])
            [Val (1 :: nat), Attr ''k'' ''v'', Val 2, Attr ''uid'' ''7'', Attr ''rid'' ''42'']
          = [Val 1, Attr ''k'' ''v'', Val 2]
       \<and> length [Val (1 :: nat), Attr ''k'' ''v'', Val 2, Attr ''uid'' ''7'', Attr ''rid'' ''42'']
          = length [Val (1 :: nat), Attr ''k'' ''v'', Val 2]
            + card (dom (map_at (maps w) (lx_contextExtractors (heap w ! 0))))
       \<and> WarnContext (Some 0) () [''uid'', ''rid''] ''disk low''
            [Val 1, Attr ''k'' ''v'', Val 2] w =
          Inr (w\<lparr>sinks := (sinks w)(Stdout :=
                [\<lparr>r_level = LevelWarn, r_source = True, r_msg = ''disk low'',
                  r_attrs = [(''module'', ''svc'')],
                  r_args = [Val 1, Attr ''k'' ''v'', Val 2,
                            Attr ''uid'' ''7'', Attr ''rid'' ''42'']\<rparr>])\<rparr>))"
proof -
  let ?calls = "[Call_NewOptions [WithContextExtractor ''rid'' (\<lambda>_ :: unit. Inr ''42''),
                                  WithContextExtractor ''uid'' (\<lambda>_. Inr ''7'')],
                 Call_Register ''svc''
                   (Some \<lparr>level = LevelInfo, addSource = True, outputW = Some Stdout,
                          contextExtractors = Some 0\<rparr>)]
                :: (unit, nat) call list"
  let ?ce = "[''rid'' \<mapsto> (\<lambda>_ :: unit. Inr ''42'' :: error + string), ''uid'' \<mapsto> (\<lambda>_. Inr ''7'')]"
  let ?args = "[Val (1 :: nat), Attr ''k'' ''v'', Val 2]"
  let ?args' = "[Val (1 :: nat), Attr ''k'' ''v'', Val 2, Attr ''uid'' ''7'', Attr ''rid'' ''42'']"
  let ?l = "\<lparr>handler_w = Some Stdout, handler_AddSource = True, handler_Level = LevelInfo,
             attrs = [(''module'', ''svc'')]\<rparr>"
  define w where "w = run ?calls init_world"
  have ev: "w = \<lparr>moduleLoggers = [''svc'' \<mapsto> 0],
                  heap = [\<lparr>Logger = Some ?l, moduleName = ''svc'', lx_contextExtractors = Some 0\<rparr>],
                  maps = [?ce], sinks = (\<lambda>_. [])\<rparr>"
    unfolding w_def
    by (simp add: NewOptions_def defaultOptions_def make_map_def
        WithContextExtractor_def Register_def newLogx_def configLogger_def
        slog_New_JSONHandler_def slog_With_def getModuleName_def init_world_def Let_def)
  have a: "0 < length (heap w)" unfolding ev by simp
  have ce: "map_at (maps w) (lx_contextExtractors (heap w ! 0)) = ?ce"
    unfolding ev by (simp add: map_at_def)
  have lg: "Logger (heap w ! 0) = Some ?l" unfolding ev by simp
  have sv: "setValueFromContext () ?ce [''uid'', ''rid''] ?args = Inr ?args'"
    by (simp add: slog_String_def)
  have io: "iteration_order ?ce [''uid'', ''rid'']"
    by (auto simp: iteration_order_def)
  note inst = extractor_pairs_follow_caller_args [where ctx = "()" and ce = ?ce
      and order = "[''uid'', ''rid'']" and args = ?args and w = w and a = 0
      and msg = "''disk low''"]
  from inst have lists: "take (length ?args) ?args' = ?args
      \<and> (iteration_order ?ce [''uid'', ''rid''] \<longrightarrow> length ?args' = length ?args + card (dom ?ce))"
    unfolding sv sum.case by blast
  have hyp: "0 < length (heap w) \<and> ?ce = map_at (maps w) (lx_contextExtractors (heap w ! 0))"
    using a ce by simp
  from inst hyp have "WarnContext (Some 0) () [''uid'', ''rid''] ''disk low'' ?args w =
      (case setValueFromContext () ?ce [''uid'', ''rid''] ?args of
         Inl e \<Rightarrow> Inl e
       | Inr args' \<Rightarrow>
           (case Logger (heap w ! 0) of
              None \<Rightarrow> Inl NilPointer
            | Some l \<Rightarrow>
                (case slog_WarnContext l () ''disk low'' args' (sinks w) of
                   Inl e \<Rightarrow> Inl e | Inr out \<Rightarrow> Inr (w\<lparr>sinks := out\<rparr>))))"
    by blast
  then have em: "WarnContext (Some 0) () [''uid'', ''rid''] ''disk low'' ?args w =
          Inr (w\<lparr>sinks := (sinks w)(Stdout :=
                [\<lparr>r_level = LevelWarn, r_source = True, r_msg = ''disk low'',
                  r_attrs = [(''module'', ''svc'')], r_args = ?args'\<rparr>])\<rparr>)"
    unfolding sv lg sum.case option.case
    by (simp add: slog_WarnContext_def slog_log_def slog_record_def LevelWarn_def LevelInfo_def ev)
  from lists io have len: "length ?args' = length ?args + card (dom ?ce)" by blast
  from lists have tk: "take (length ?args) ?args' = ?args" by blast
  from a io sv tk len em show ?thesis
    unfolding Let_def w_def [symmetric] ce by (intro conjI)
qed

section \<open>Two goroutines in \<open>Register\<close>\<close>

text \<open>One thread running alone is the sequential \<open>Register\<close>.\<close>

lemma schedule_alone_is_Register:
  "schedule [0, 0] [Called name options] w =
     ([Returned (fst (Register name options w))], snd (Register name options w))"
  by (cases "moduleLoggers w (getModuleName name)")
     (simp_all add: Register_def Let_def split: prod.splits)

text \<open>Two threads one after the other agree on the handle.\<close>

lemma schedule_in_turn_same_handle:
  "fst (schedule [0, 0, 1, 1] [Called name o1, Called name o2] w) =
     [Returned (fst (Register name o1 w)), Returned (fst (Register name o1 w))]"
proof -
  obtain h1 w1 where r: "Register name o1 w = (h1, w1)" by (cases "Register name o1 w")
  from Register_result [of name o1 w] r obtain a where
    a: "h1 = Some a" "moduleLoggers w1 (getModuleName name) = Some a" by auto
  have s: "thread_step (Loaded (getModuleName name) o1 (moduleLoggers w (getModuleName name))) w
      = (Returned h1, w1)"
  proof (cases "moduleLoggers w (getModuleName name)")
    case None
    with r show ?thesis by (auto simp: Register_def Let_def split: prod.splits)
  next
    case (Some b)
    with r have "h1 = Some b" "w1 = w" by (simp_all add: Register_def)
    with Some show ?thesis by simp
  qed
  show ?thesis
    by (simp add: Let_def s r a)
qed

text \<open>
  C2 (the code fails it): two goroutines call \<open>Register("m", nil)\<close> on the empty registry
  and both \<open>Load\<close> before either \<open>Store\<close>. Both miss, both build a handle and both store:
  the first caller holds handle 0, the second caller and the registry hold handle 1. Two
  handles named \<open>m\<close> are in use, and the get-or-create was not atomic.
\<close>

theorem Register_race_two_handles:
  "fst (schedule [0, 1, 0, 1] [Called ''m'' None, Called ''m'' None]
          (init_world :: (unit, nat) world))
     = [Returned (Some 0), Returned (Some 1)]
   \<and> moduleLoggers (snd (schedule [0, 1, 0, 1] [Called ''m'' None, Called ''m'' None]
          (init_world :: (unit, nat) world))) ''m'' = Some 1
   \<and> map moduleName (heap (snd (schedule [0, 1, 0, 1] [Called ''m'' None, Called ''m'' None]
          (init_world :: (unit, nat) world)))) = [''m'', ''m'']"
  by (simp add: Let_def newLogx_def configLogger_def defaultOptions_def make_map_def
      getModuleName_def init_world_def)

end
